theory Spec2Isabelle
  imports Complex_Main "HOL-Library.Log_Nat"
begin

section \<open>Values exchanged with the loan calculator\<close>

text \<open>
  The two endpoints of \<^verbatim>\<open>app.py\<close> receive a parsed JSON body and coerce its fields with
  Python's \<^verbatim>\<open>int\<close> and \<^verbatim>\<open>float\<close>. Every exception the source can raise is a value of
  \<open>py_error\<close>; a function that may raise returns \<open>py_error + 'a\<close>.
\<close>

datatype py_error =
  TypeError | ValueError | OverflowError | ZeroDivisionError | AttributeError

text \<open>
  A Python \<^verbatim>\<open>float\<close> is an IEEE 754 binary64 value: a finite rational, an infinity or
  NaN. The sign of zero is not represented: no operation of the source tells \<open>-0.0\<close>
  from \<open>0.0\<close> (a division by either raises).
\<close>

datatype pyfloat = Finite rat | PosInf | NegInf | NaN

datatype json =
  JNull | JBool bool | JInt int | JFloat pyfloat | JStr string
  | JArr "json list" | JObj "(string \<times> json) list"

text \<open>\<^verbatim>\<open>data.get(key, default)\<close> on the dictionary of a JSON object.\<close>

definition dict_get :: "(string \<times> json) list \<Rightarrow> string \<Rightarrow> json \<Rightarrow> json" where
  "dict_get data k d = (case map_of data k of None \<Rightarrow> d | Some v \<Rightarrow> v)"

section \<open>CNIC format check\<close>

text \<open>
  \<^verbatim>\<open>re.match(r'^\d{5}-\d{7}-\d{1}$', cnic)\<close>. The pattern is a sequence of atoms, each taken
  a fixed number of times, so matching needs no backtracking. \<^verbatim>\<open>re.match\<close> matches a prefix
  of the subject starting at position 0. Without \<^verbatim>\<open>re.MULTILINE\<close>, \<^verbatim>\<open>^\<close> holds at the start
  of the subject only, and \<^verbatim>\<open>$\<close> holds at the end of the subject and also just before a
  newline that is the subject's last character. Strings are lists of 8-bit characters;
  among those, \<^verbatim>\<open>\d\<close> matches exactly the ten ASCII digits.
\<close>

datatype re_atom = Bol | Eol | Digits nat | Lit char

definition is_digit :: "char \<Rightarrow> bool" where
  "is_digit c = (c \<in> set ''0123456789'')"

fun re_match_from :: "re_atom list \<Rightarrow> bool \<Rightarrow> string \<Rightarrow> bool" where
  "re_match_from [] at_start s = True"
| "re_match_from (Bol # as) at_start s = (at_start \<and> re_match_from as at_start s)"
| "re_match_from (Eol # as) at_start s =
     ((s = [] \<or> s = [CHR 0x0A]) \<and> re_match_from as at_start s)"
| "re_match_from (Digits n # as) at_start s =
     (n \<le> length s \<and> list_all is_digit (take n s)
      \<and> re_match_from as (at_start \<and> n = 0) (drop n s))"
| "re_match_from (Lit c # as) at_start s =
     (case s of [] \<Rightarrow> False | d # t \<Rightarrow> d = c \<and> re_match_from as False t)"

definition cnic_pattern :: "re_atom list" where
  "cnic_pattern = [Bol, Digits 5, Lit (CHR ''-''), Digits 7, Lit (CHR ''-''), Digits 1, Eol]"

text \<open>\<^verbatim>\<open>re.match\<close> raises \<^verbatim>\<open>TypeError\<close> on a subject that is not a string.\<close>

definition validate_cnic :: "json \<Rightarrow> py_error + bool" where
  "validate_cnic cnic =
     (case cnic of JStr s \<Rightarrow> Inr (re_match_from cnic_pattern True s) | _ \<Rightarrow> Inl TypeError)"

section \<open>Binary64 arithmetic\<close>

text \<open>
  The arithmetic of Python floats: each operation returns the exact rational result
  rounded to the nearest binary64 value, ties to the even significand, with gradual
  underflow and overflow to an infinity.
\<close>

definition ebind :: "'e + 'a \<Rightarrow> ('a \<Rightarrow> 'e + 'b) \<Rightarrow> 'e + 'b" where
  "ebind r f = (case r of Inl e \<Rightarrow> Inl e | Inr v \<Rightarrow> f v)"

definition pow2 :: "int \<Rightarrow> rat" where
  "pow2 k = (if 0 \<le> k then 2 ^ nat k else 1 / 2 ^ nat (- k))"

definition round_half_even :: "rat \<Rightarrow> int" where
  "round_half_even x =
     (let f = \<lfloor>x\<rfloor>; d = x - of_int f
      in if d < 1 / 2 then f else if 1 / 2 < d then f + 1 else if even f then f else f + 1)"

text \<open>For \<open>0 < x\<close>, the exponent \<open>k\<close> with \<open>2 ^ k \<le> x < 2 ^ (k + 1)\<close>.\<close>

definition floor_log2 :: "rat \<Rightarrow> int" where
  "floor_log2 x =
     (let d = bitlen (fst (quotient_of x)) - bitlen (snd (quotient_of x))
      in if pow2 d \<le> x then d else d - 1)"

definition round64 :: "rat \<Rightarrow> pyfloat" where
  "round64 x =
     (if x = 0 then Finite 0
      else
        let e = max (floor_log2 \<bar>x\<bar> - 52) (- 1074);
            m = round_half_even (\<bar>x\<bar> / pow2 e);
            y = of_int m * pow2 e
        in if pow2 1024 \<le> y then (if 0 < x then PosInf else NegInf)
           else Finite (sgn x * y))"

fun fneg :: "pyfloat \<Rightarrow> pyfloat" where
  "fneg (Finite a) = Finite (- a)"
| "fneg PosInf = NegInf"
| "fneg NegInf = PosInf"
| "fneg NaN = NaN"

fun fadd :: "pyfloat \<Rightarrow> pyfloat \<Rightarrow> pyfloat" where
  "fadd (Finite a) (Finite b) = round64 (a + b)"
| "fadd NaN _ = NaN"
| "fadd _ NaN = NaN"
| "fadd PosInf NegInf = NaN"
| "fadd NegInf PosInf = NaN"
| "fadd PosInf _ = PosInf"
| "fadd NegInf _ = NegInf"
| "fadd _ PosInf = PosInf"
| "fadd _ NegInf = NegInf"

definition fsub :: "pyfloat \<Rightarrow> pyfloat \<Rightarrow> pyfloat" where
  "fsub a b = fadd a (fneg b)"

text \<open>The sign of a value that is not NaN: \<open>-1\<close>, \<open>0\<close> or \<open>1\<close>.\<close>

fun fsign :: "pyfloat \<Rightarrow> int" where
  "fsign (Finite a) = (if a < 0 then - 1 else if a = 0 then 0 else 1)"
| "fsign PosInf = 1"
| "fsign NegInf = - 1"
| "fsign NaN = 0"

definition signed_inf :: "int \<Rightarrow> pyfloat" where
  "signed_inf s = (if s < 0 then NegInf else PosInf)"

fun fmul :: "pyfloat \<Rightarrow> pyfloat \<Rightarrow> pyfloat" where
  "fmul (Finite a) (Finite b) = round64 (a * b)"
| "fmul NaN _ = NaN"
| "fmul _ NaN = NaN"
| "fmul a b = (if fsign a * fsign b = 0 then NaN else signed_inf (fsign a * fsign b))"

text \<open>
  Python's \<^verbatim>\<open>a / b\<close> on floats raises \<^verbatim>\<open>ZeroDivisionError\<close> whenever the divisor is zero,
  whatever the dividend.
\<close>

fun fdiv :: "pyfloat \<Rightarrow> pyfloat \<Rightarrow> py_error + pyfloat" where
  "fdiv a (Finite b) =
     (if b = 0 then Inl ZeroDivisionError
      else case a of
             Finite x \<Rightarrow> Inr (round64 (x / b))
           | NaN \<Rightarrow> Inr NaN
           | _ \<Rightarrow> Inr (signed_inf (fsign a * fsign (Finite b))))"
| "fdiv a NaN = Inr NaN"
| "fdiv (Finite x) _ = Inr (Finite 0)"
| "fdiv _ _ = Inr NaN"

text \<open>Comparisons of a float with an integer constant; every comparison with NaN is false.\<close>

fun flt :: "pyfloat \<Rightarrow> rat \<Rightarrow> bool" where
  "flt (Finite a) c = (a < c)"
| "flt NegInf c = True"
| "flt _ c = False"

fun fgt :: "pyfloat \<Rightarrow> rat \<Rightarrow> bool" where
  "fgt (Finite a) c = (c < a)"
| "fgt PosInf c = True"
| "fgt _ c = False"

fun fle :: "pyfloat \<Rightarrow> rat \<Rightarrow> bool" where
  "fle (Finite a) c = (a \<le> c)"
| "fle NegInf c = True"
| "fle _ c = False"

text \<open>
  The conversion of a Python integer to a float, as done for the integer operand of a
  mixed operation and by \<^verbatim>\<open>float(n)\<close>: correctly rounded, \<^verbatim>\<open>OverflowError\<close> when the
  integer is beyond the range of binary64.
\<close>

definition int_to_float :: "int \<Rightarrow> py_error + pyfloat" where
  "int_to_float n =
     (case round64 (of_int n) of Finite q \<Rightarrow> Inr (Finite q) | _ \<Rightarrow> Inl OverflowError)"

text \<open>
  \<^verbatim>\<open>round(x, 2)\<close> on a float: the decimal with two fractional digits nearest to the exact
  value of \<open>x\<close>, ties to the even last digit, converted back to the nearest binary64
  value. Infinities and NaN round to themselves.
\<close>

fun py_round2 :: "pyfloat \<Rightarrow> pyfloat" where
  "py_round2 (Finite x) = round64 (of_int (round_half_even (x * 100)) / 100)"
| "py_round2 f = f"

text \<open>
  \<^verbatim>\<open>max(0, x)\<close> returns its first argument unless the second is greater; the integer \<open>0\<close>
  it may return is represented by the float of the same value.
\<close>

definition py_max0 :: "pyfloat \<Rightarrow> pyfloat" where
  "py_max0 x = (if fgt x 0 then x else Finite 0)"

text \<open>
  \<^verbatim>\<open>math.pow(x, n)\<close> with an integer second argument. The integer is converted to a float
  first. CPython settles the infinite and NaN bases itself and hands every finite base to
  the C library's \<^verbatim>\<open>pow\<close>. The C standard fixes the results \<open>pow(x, 0) = 1\<close>,
  \<open>pow(1, y) = 1\<close> and \<open>pow(0, y) = 0\<close> for \<open>y > 0\<close>; everywhere else the last bit of the
  result depends on the library, so the library function is the parameter \<open>cpow\<close>: the
  float it returns for a finite base and an integer exponent. CPython raises
  \<^verbatim>\<open>OverflowError\<close> when a finite base gives an infinite result, and \<^verbatim>\<open>ValueError\<close> when it
  gives NaN and for zero to a negative power.
\<close>

fun pow_float :: "(rat \<Rightarrow> int \<Rightarrow> pyfloat) \<Rightarrow> pyfloat \<Rightarrow> int \<Rightarrow> py_error + pyfloat" where
  "pow_float cpow NaN k = Inr (if k = 0 then Finite 1 else NaN)"
| "pow_float cpow PosInf k =
     Inr (if 0 < k then PosInf else if k = 0 then Finite 1 else Finite 0)"
| "pow_float cpow NegInf k =
     Inr (if 0 < k then (if odd k then NegInf else PosInf)
          else if k = 0 then Finite 1 else Finite 0)"
| "pow_float cpow (Finite q) k =
     (if k = 0 then Inr (Finite 1)
      else if q = 0 then (if 0 < k then Inr (Finite 0) else Inl ValueError)
      else if q = 1 then Inr (Finite 1)
      else case cpow q k of
             Finite r \<Rightarrow> Inr (Finite r)
           | NaN \<Rightarrow> Inl ValueError
           | _ \<Rightarrow> Inl OverflowError)"

definition math_pow ::
  "(rat \<Rightarrow> int \<Rightarrow> pyfloat) \<Rightarrow> pyfloat \<Rightarrow> int \<Rightarrow> py_error + pyfloat" where
  "math_pow cpow x n =
     ebind (int_to_float n)
       (\<lambda>y. case y of Finite k \<Rightarrow> pow_float cpow x \<lfloor>k\<rfloor> | _ \<Rightarrow> Inl OverflowError)"

text \<open>
  A C library whose \<^verbatim>\<open>pow\<close> is correctly rounded: the exact power, rounded once. It is the
  library used where a concrete request is evaluated.
\<close>

definition rat_power_int :: "rat \<Rightarrow> int \<Rightarrow> rat" where
  "rat_power_int q k = (if 0 \<le> k then q ^ nat k else 1 / q ^ nat (- k))"

definition correctly_rounded_pow :: "rat \<Rightarrow> int \<Rightarrow> pyfloat" where
  "correctly_rounded_pow q k = round64 (rat_power_int q k)"

section \<open>Coercion of request fields\<close>

text \<open>
  \<^verbatim>\<open>int(v)\<close> and \<^verbatim>\<open>float(v)\<close> on a JSON value. How Python reads a number out of a string is
  not part of this program: it is the parameter \<open>str_int\<close> (respectively \<open>str_float\<close>),
  which gives \<open>None\<close> where Python raises \<^verbatim>\<open>ValueError\<close>.
\<close>

definition py_int :: "(string \<Rightarrow> int option) \<Rightarrow> json \<Rightarrow> py_error + int" where
  "py_int str_int v =
     (case v of
        JInt i \<Rightarrow> Inr i
      | JBool b \<Rightarrow> Inr (if b then 1 else 0)
      | JFloat (Finite q) \<Rightarrow> Inr (if 0 \<le> q then \<lfloor>q\<rfloor> else \<lceil>q\<rceil>)
      | JFloat NaN \<Rightarrow> Inl ValueError
      | JFloat _ \<Rightarrow> Inl OverflowError
      | JStr s \<Rightarrow> (case str_int s of None \<Rightarrow> Inl ValueError | Some i \<Rightarrow> Inr i)
      | _ \<Rightarrow> Inl TypeError)"

definition py_float :: "(string \<Rightarrow> pyfloat option) \<Rightarrow> json \<Rightarrow> py_error + pyfloat" where
  "py_float str_float v =
     (case v of
        JInt i \<Rightarrow> int_to_float i
      | JBool b \<Rightarrow> Inr (Finite (if b then 1 else 0))
      | JFloat f \<Rightarrow> Inr f
      | JStr s \<Rightarrow> (case str_float s of None \<Rightarrow> Inl ValueError | Some f \<Rightarrow> Inr f)
      | _ \<Rightarrow> Inl TypeError)"

section \<open>Validator\<close>

definition cnic_error :: string where
  "cnic_error = ''Invalid CNIC format. Use: XXXXX-XXXXXXX-X''"

definition age_error :: "string \<Rightarrow> string" where
  "age_error loan_type = ''Age must be 22-60 years for '' @ loan_type @ '' loans''"

definition business_error :: string where
  "business_error = ''Age must be 22-70 years for Business loans''"

definition student_error :: string where
  "student_error = ''Student age must be 18-50 years''"

definition acres_error :: "string \<Rightarrow> string" where
  "acres_error loan_type = loan_type @ '' loans require more than 13 acres''"

text \<open>The text of a loan type, as the f-strings of the error messages print it.\<close>

definition type_text :: "json \<Rightarrow> string" where
  "type_text loan_type = (case loan_type of JStr t \<Rightarrow> t | _ \<Rightarrow> [])"

text \<open>
  \<^verbatim>\<open>validate_loan(data)\<close>. The list \<open>errs\<close> (the source's \<^verbatim>\<open>errors\<close>) is threaded through the checks in the order
  of the source; \<open>age\<close> is coerced before the loan type is looked at, whatever the type.
\<close>

definition validate_loan ::
  "(string \<Rightarrow> int option) \<Rightarrow> (string \<Rightarrow> pyfloat option) \<Rightarrow> (string \<times> json) list
     \<Rightarrow> py_error + string list" where
  "validate_loan str_int str_float data =
     ebind (validate_cnic (dict_get data ''cnic'' (JStr []))) (\<lambda>cnic_ok.
       let errs = (if \<not> cnic_ok then [cnic_error] else []);
           loan_type = dict_get data ''loanType'' (JStr ''Home'')
       in ebind (py_int str_int (dict_get data ''age'' (JInt 0))) (\<lambda>age.
            if loan_type = JStr ''Home'' \<or> loan_type = JStr ''Car'' then
              (if age < 22 \<or> 60 < age
               then Inr (errs @ [age_error (type_text loan_type)])
               else Inr errs)
            else if loan_type = JStr ''Business'' then
              (if age < 22 \<or> 70 < age then Inr (errs @ [business_error]) else Inr errs)
            else if loan_type = JStr ''Education'' then
              ebind (py_int str_int (dict_get data ''studentAge'' (JInt 0))) (\<lambda>student_age.
                if student_age < 18 \<or> 50 < student_age
                then Inr (errs @ [student_error]) else Inr errs)
            else if loan_type = JStr ''Agriculture'' \<or> loan_type = JStr ''Dairy'' then
              ebind (py_float str_float (dict_get data ''landAcres'' (JInt 0))) (\<lambda>land_acres.
                if fle land_acres 13
                then Inr (errs @ [acres_error (type_text loan_type)])
                else Inr errs)
            else Inr errs))"

text \<open>
  The \<^verbatim>\<open>/api/validate\<close> handler. \<^verbatim>\<open>request.json\<close> is the parsed body; \<^verbatim>\<open>.get\<close> on a
  body that is not an object raises \<^verbatim>\<open>AttributeError\<close>. An entry of \<open>errors\<close> is one of
  the validator's texts or \<^verbatim>\<open>str(e)\<close> of the exception caught.
\<close>

datatype message = Text string | ExcText py_error

record validate_response =
  status :: nat
  isValid :: bool
  errors :: "message list"

definition request_dict :: "json \<Rightarrow> py_error + (string \<times> json) list" where
  "request_dict body = (case body of JObj data \<Rightarrow> Inr data | _ \<Rightarrow> Inl AttributeError)"

definition validate ::
  "(string \<Rightarrow> int option) \<Rightarrow> (string \<Rightarrow> pyfloat option) \<Rightarrow> json \<Rightarrow> validate_response" where
  "validate str_int str_float body =
     (case ebind (request_dict body) (validate_loan str_int str_float) of
        Inr errs \<Rightarrow> \<lparr>status = 200, isValid = (length errs = 0), errors = map Text errs\<rparr>
      | Inl e \<Rightarrow> \<lparr>status = 400, isValid = False, errors = [ExcText e]\<rparr>)"

section \<open>EMI calculator\<close>

text \<open>
  A row of the schedule; the field \<open>row_principal\<close> is the key \<^verbatim>\<open>'principal'\<close> of the
  source's dictionary, and so on.
\<close>

record schedule_row =
  row_month :: int
  row_emi :: pyfloat
  row_principal :: pyfloat
  row_interest :: pyfloat
  row_balance :: pyfloat

record emi_result =
  monthlyEMI :: pyfloat
  totalInterest :: pyfloat
  totalPayable :: pyfloat
  schedule :: "schedule_row list"
  tenure :: int

text \<open>
  The body of the schedule loop, run for the months of the list given; the state is
  \<open>remaining_balance\<close>, and the rows are appended in order.
\<close>

fun schedule_loop ::
  "pyfloat \<Rightarrow> pyfloat \<Rightarrow> pyfloat \<Rightarrow> int list \<Rightarrow> schedule_row list" where
  "schedule_loop monthly_emi monthly_rate remaining_balance [] = []"
| "schedule_loop monthly_emi monthly_rate remaining_balance (m # ms) =
     (let interest_payment = fmul remaining_balance monthly_rate;
          principal_payment = fsub monthly_emi interest_payment;
          remaining_balance' = fsub remaining_balance principal_payment
      in \<lparr>row_month = m,
          row_emi = py_round2 monthly_emi,
          row_principal = py_round2 principal_payment,
          row_interest = py_round2 interest_payment,
          row_balance = py_round2 (py_max0 remaining_balance')\<rparr>
         # schedule_loop monthly_emi monthly_rate remaining_balance' ms)"

text \<open>\<^verbatim>\<open>range(1, min(tenure_months + 1, 13))\<close>.\<close>

definition schedule_months :: "int \<Rightarrow> int list" where
  "schedule_months tenure_months = [1 .. min (tenure_months + 1) 13 - 1]"

definition monthly_emi_of ::
  "(rat \<Rightarrow> int \<Rightarrow> pyfloat) \<Rightarrow> pyfloat \<Rightarrow> pyfloat \<Rightarrow> int \<Rightarrow> py_error + pyfloat" where
  "monthly_emi_of cpow principal_amt monthly_rate tenure_months =
     (if monthly_rate = Finite 0 then
        ebind (int_to_float tenure_months) (fdiv principal_amt)
      else
        ebind (math_pow cpow (fadd (Finite 1) monthly_rate) tenure_months) (\<lambda>p1.
          let numerator = fmul (fmul principal_amt monthly_rate) p1
          in ebind (math_pow cpow (fadd (Finite 1) monthly_rate) tenure_months) (\<lambda>p2.
               let denominator = fsub p2 (Finite 1)
               in fdiv numerator denominator)))"

definition calculate_emi ::
  "(rat \<Rightarrow> int \<Rightarrow> pyfloat) \<Rightarrow> pyfloat \<Rightarrow> pyfloat \<Rightarrow> int \<Rightarrow> py_error + emi_result" where
  "calculate_emi cpow principal_amt annual_rate tenure_months =
     ebind (fdiv annual_rate (Finite 12)) (\<lambda>r12.
     ebind (fdiv r12 (Finite 100)) (\<lambda>monthly_rate.
     ebind (monthly_emi_of cpow principal_amt monthly_rate tenure_months) (\<lambda>monthly_emi.
     ebind (int_to_float tenure_months) (\<lambda>n.
       let total_payable = fmul monthly_emi n;
           total_interest = fsub total_payable principal_amt
       in Inr \<lparr>monthlyEMI = py_round2 monthly_emi,
               totalInterest = py_round2 total_interest,
               totalPayable = py_round2 total_payable,
               schedule = schedule_loop monthly_emi monthly_rate principal_amt
                            (schedule_months tenure_months),
               tenure = tenure_months\<rparr>))))"

text \<open>
  The \<^verbatim>\<open>/api/calculate\<close> handler: a status code and a body, which is an error text of the
  handler, \<^verbatim>\<open>str(e)\<close> of the exception caught, or the result of \<open>calculate_emi\<close>.
\<close>

datatype calc_body = ErrorText string | ErrorExc py_error | Result emi_result

definition amount_error :: string where
  "amount_error = ''Loan amount must be greater than 0''"

definition rate_error :: string where
  "rate_error = ''Interest rate must be between 0 and 100''"

definition tenure_error :: string where
  "tenure_error = ''Loan tenure must be greater than 0''"

definition calculate_checked ::
  "(rat \<Rightarrow> int \<Rightarrow> pyfloat) \<Rightarrow> (string \<Rightarrow> int option) \<Rightarrow> (string \<Rightarrow> pyfloat option) \<Rightarrow> json
     \<Rightarrow> py_error + nat \<times> calc_body" where
  "calculate_checked cpow str_int str_float body =
     ebind (request_dict body) (\<lambda>data.
     ebind (py_float str_float (dict_get data ''loanAmount'' (JInt 0))) (\<lambda>principal_amt.
     ebind (py_float str_float (dict_get data ''interestRate'' (JInt 0))) (\<lambda>annual_rate.
     ebind (py_int str_int (dict_get data ''loanTenure'' (JInt 0))) (\<lambda>tenure_months.
       if fle principal_amt 0 then Inr (400, ErrorText amount_error)
       else if flt annual_rate 0 \<or> fgt annual_rate 100 then Inr (400, ErrorText rate_error)
       else if tenure_months \<le> 0 then Inr (400, ErrorText tenure_error)
       else ebind (calculate_emi cpow principal_amt annual_rate tenure_months) (\<lambda>result.
              Inr (200, Result result))))))"

definition calculate ::
  "(rat \<Rightarrow> int \<Rightarrow> pyfloat) \<Rightarrow> (string \<Rightarrow> int option) \<Rightarrow> (string \<Rightarrow> pyfloat option) \<Rightarrow> json
     \<Rightarrow> nat \<times> calc_body" where
  "calculate cpow str_int str_float body =
     (case calculate_checked cpow str_int str_float body of
        Inr response \<Rightarrow> response
      | Inl e \<Rightarrow> (400, ErrorExc e))"

section \<open>Notions used to state the properties\<close>

text \<open>
  The format the specification gives for a CNIC: five digits, a hyphen, seven digits,
  a hyphen, one digit, and nothing else.
\<close>

definition cnic_shape :: "string \<Rightarrow> bool" where
  "cnic_shape s =
     (length s = 15 \<and> list_all is_digit (take 5 s) \<and> s ! 5 = CHR ''-''
      \<and> list_all is_digit (take 7 (drop 6 s)) \<and> s ! 13 = CHR ''-'' \<and> is_digit (s ! 14))"

text \<open>The entries of an error list other than the CNIC error.\<close>

definition type_errors :: "string list \<Rightarrow> string list" where
  "type_errors errs = filter (\<lambda>e. e \<noteq> cnic_error) errs"

text \<open>
  The table of type-specific rules as the specification words it: the error condition of
  a loan type, on the age, the student age and the land size of the application.
\<close>

definition spec_rule_violated :: "json \<Rightarrow> int \<Rightarrow> int \<Rightarrow> pyfloat \<Rightarrow> bool" where
  "spec_rule_violated loan_type age student_age land_acres =
     (if loan_type = JStr ''Home'' \<or> loan_type = JStr ''Car'' then age < 22 \<or> age > 60
      else if loan_type = JStr ''Business'' then age < 22 \<or> age > 70
      else if loan_type = JStr ''Education'' then student_age < 18 \<or> student_age > 50
      else if loan_type = JStr ''Agriculture'' \<or> loan_type = JStr ''Dairy''
        then fle land_acres 13
      else False)"

text \<open>The message each rule of the table reports.\<close>

definition spec_rule_message :: "json \<Rightarrow> string" where
  "spec_rule_message loan_type =
     (if loan_type = JStr ''Home'' \<or> loan_type = JStr ''Car'' then age_error (type_text loan_type)
      else if loan_type = JStr ''Business'' then business_error
      else if loan_type = JStr ''Education'' then student_error
      else acres_error (type_text loan_type))"

text \<open>
  The part of \<open>validate_loan\<close> after the CNIC check, run on its own from an empty list:
  the coercion of \<open>age\<close> and the branch of the loan type.
\<close>

definition type_checks ::
  "(string \<Rightarrow> int option) \<Rightarrow> (string \<Rightarrow> pyfloat option) \<Rightarrow> (string \<times> json) list
     \<Rightarrow> py_error + string list" where
  "type_checks str_int str_float data =
     (let loan_type = dict_get data ''loanType'' (JStr ''Home'')
      in ebind (py_int str_int (dict_get data ''age'' (JInt 0))) (\<lambda>age.
           if loan_type = JStr ''Home'' \<or> loan_type = JStr ''Car'' then
             Inr (if age < 22 \<or> 60 < age then [age_error (type_text loan_type)] else [])
           else if loan_type = JStr ''Business'' then
             Inr (if age < 22 \<or> 70 < age then [business_error] else [])
           else if loan_type = JStr ''Education'' then
             ebind (py_int str_int (dict_get data ''studentAge'' (JInt 0))) (\<lambda>student_age.
               Inr (if student_age < 18 \<or> 50 < student_age then [student_error] else []))
           else if loan_type = JStr ''Agriculture'' \<or> loan_type = JStr ''Dairy'' then
             ebind (py_float str_float (dict_get data ''landAcres'' (JInt 0))) (\<lambda>land_acres.
               Inr (if fle land_acres 13 then [acres_error (type_text loan_type)] else []))
           else Inr []))"

definition recognized_types :: "json set" where
  "recognized_types =
     {JStr ''Home'', JStr ''Car'', JStr ''Business'', JStr ''Education'',
      JStr ''Agriculture'', JStr ''Dairy''}"

text \<open>
  The coercion of the three fields of a request to \<^verbatim>\<open>/api/calculate\<close>, in the order of the
  handler: the loan amount, the interest rate and the tenure, or the first exception.
\<close>

definition coerce_request ::
  "(string \<Rightarrow> int option) \<Rightarrow> (string \<Rightarrow> pyfloat option) \<Rightarrow> json
     \<Rightarrow> py_error + pyfloat \<times> pyfloat \<times> int" where
  "coerce_request str_int str_float body =
     ebind (request_dict body) (\<lambda>data.
     ebind (py_float str_float (dict_get data ''loanAmount'' (JInt 0))) (\<lambda>p.
     ebind (py_float str_float (dict_get data ''interestRate'' (JInt 0))) (\<lambda>r.
     ebind (py_int str_int (dict_get data ''loanTenure'' (JInt 0))) (\<lambda>n. Inr (p, r, n)))))"

text \<open>The exponent and the magnitude that \<open>round64\<close> chooses for a rational.\<close>

definition r64_exp :: "rat \<Rightarrow> int" where
  "r64_exp x = max (floor_log2 \<bar>x\<bar> - 52) (- 1074)"

definition r64_mag :: "rat \<Rightarrow> rat" where
  "r64_mag x = of_int (round_half_even (\<bar>x\<bar> / pow2 (r64_exp x))) * pow2 (r64_exp x)"

text \<open>A float lies within a tolerance of a rational; false of an infinity and of NaN.\<close>

definition within_tol :: "pyfloat \<Rightarrow> rat \<Rightarrow> rat \<Rightarrow> bool" where
  "within_tol f c tol = (case f of Finite x \<Rightarrow> \<bar>x - c\<bar> \<le> tol | _ \<Rightarrow> False)"

text \<open>Python's \<^verbatim>\<open>a <= b\<close> on two floats; false when either is NaN.\<close>

fun float_le :: "pyfloat \<Rightarrow> pyfloat \<Rightarrow> bool" where
  "float_le NaN b = False"
| "float_le a NaN = False"
| "float_le NegInf b = True"
| "float_le a PosInf = True"
| "float_le (Finite a) (Finite b) = (a \<le> b)"
| "float_le a b = False"

text \<open>The values of a list of floats never increase from one to the next.\<close>

definition non_increasing :: "pyfloat list \<Rightarrow> bool" where
  "non_increasing xs = successively (\<lambda>a b. float_le b a) xs"

text \<open>
  The standard amortizing-loan formula of the specification, in exact arithmetic, for a
  monthly rate that is not zero.
\<close>

definition spec_emi :: "rat \<Rightarrow> rat \<Rightarrow> nat \<Rightarrow> rat" where
  "spec_emi p r n = p * r * (1 + r) ^ n / ((1 + r) ^ n - 1)"
section \<open>Sequencing of computations that may raise\<close>

lemma ebind_Inr [simp]: "ebind (Inr v) f = f v"
  by (simp add: ebind_def)

lemma ebind_Inl [simp]: "ebind (Inl e) f = Inl e"
  by (simp add: ebind_def)

lemma ebind_eq_Inr: "ebind r f = Inr y \<longleftrightarrow> (\<exists>v. r = Inr v \<and> f v = Inr y)"
  by (cases r) simp_all

section \<open>Properties of the binary64 rounding\<close>

lemma pow2_powi: "pow2 k = 2 powi k"
  by (simp add: pow2_def power_int_def field_simps)

lemma pow2_pos [simp]: "0 < pow2 k"
  by (simp add: pow2_powi)

lemma pow2_nonneg [simp]: "0 \<le> pow2 k"
  using pow2_pos[of k] by linarith

lemma pow2_neq0 [simp]: "pow2 k \<noteq> 0"
  using pow2_pos[of k] by linarith

lemma pow2_add: "pow2 (a + b) = pow2 a * pow2 b"
  by (simp add: pow2_powi power_int_add)

lemma pow2_diff: "pow2 (a - b) = pow2 a / pow2 b"
  by (simp add: pow2_powi power_int_diff)

lemma pow2_mono: "a \<le> b \<Longrightarrow> pow2 a \<le> pow2 b"
  by (simp add: pow2_powi power_int_increasing)

lemma pow2_strict_mono: "a < b \<Longrightarrow> pow2 a < pow2 b"
  by (simp add: pow2_powi power_int_strict_increasing)

lemma pow2_le_iff: "pow2 a \<le> pow2 b \<longleftrightarrow> a \<le> b"
  using pow2_mono pow2_strict_mono by (metis linorder_not_le)

lemma pow2_less_iff: "pow2 a < pow2 b \<longleftrightarrow> a < b"
  using pow2_mono pow2_strict_mono by (metis linorder_not_le)

lemma pow2_nat: "pow2 (int n) = 2 ^ n"
  by (simp add: pow2_def)

lemma pow2_0 [simp]: "pow2 0 = 1"
  by (simp add: pow2_def)

lemma pow2_1 [simp]: "pow2 1 = 2"
  by (simp add: pow2_def)

lemma pow2_Suc: "pow2 (k + 1) = 2 * pow2 k"
  by (simp add: pow2_add)

lemma pow2_of_nat_int: "0 \<le> k \<Longrightarrow> pow2 k = of_int (2 ^ nat k)"
  by (simp add: pow2_def)

lemma floor_log2_range:
  assumes "0 < x"
  defines "d \<equiv> bitlen (fst (quotient_of x)) - bitlen (snd (quotient_of x))"
  shows "pow2 (d - 1) < x" and "x < pow2 (d + 1)"
proof -
  obtain p q where pq: "quotient_of x = (p, q)" by (cases "quotient_of x")
  have q: "0 < q" using quotient_of_denom_pos[OF pq] .
  have x: "x = of_int p / of_int q" using quotient_of_div[OF pq] .
  have p: "0 < p" using assms(1) q x by (simp add: zero_less_divide_iff)
  have d: "d = bitlen p - bitlen q" by (simp add: d_def pq)
  have bp: "2 ^ nat (bitlen p - 1) \<le> p" "p < 2 ^ nat (bitlen p)"
    using bitlen_bounds[OF p] by auto
  have bq: "2 ^ nat (bitlen q - 1) \<le> q" "q < 2 ^ nat (bitlen q)"
    using bitlen_bounds[OF q] by auto
  have lp: "1 \<le> bitlen p" using p by (simp add: bitlen_alt_def)
  have lq: "1 \<le> bitlen q" using q by (simp add: bitlen_alt_def)
  have P1: "pow2 (bitlen p - 1) \<le> of_int p"
    using bp(1) lp by (simp only: pow2_of_nat_int of_int_le_iff)
  have P2: "of_int p < pow2 (bitlen p)"
    using bp(2) lp by (simp only: pow2_of_nat_int bitlen_nonneg of_int_less_iff)
  have Q1: "pow2 (bitlen q - 1) \<le> of_int q"
    using bq(1) lq by (simp only: pow2_of_nat_int of_int_le_iff)
  have Q2: "of_int q < pow2 (bitlen q)"
    using bq(2) lq by (simp only: pow2_of_nat_int bitlen_nonneg of_int_less_iff)
  have qpos: "(0::rat) < of_int q" using q by simp
  have "pow2 (d - 1) * of_int q < pow2 (d - 1) * pow2 (bitlen q)"
    using Q2 by simp
  also have "\<dots> = pow2 (bitlen p - 1)"
    by (simp add: d pow2_add[symmetric])
  also have "\<dots> \<le> of_int p" by (rule P1)
  finally show "pow2 (d - 1) < x"
    using qpos by (simp add: x pos_less_divide_eq)
  have "of_int p < pow2 (bitlen p)" by (rule P2)
  also have "\<dots> = pow2 (d + 1) * pow2 (bitlen q - 1)"
    by (simp add: d pow2_add[symmetric])
  also have "\<dots> \<le> pow2 (d + 1) * of_int q"
    using Q1 by simp
  finally show "x < pow2 (d + 1)"
    using qpos by (simp add: x pos_divide_less_eq)
qed

lemma floor_log2_bounds:
  assumes "0 < x"
  shows "pow2 (floor_log2 x) \<le> x" and "x < pow2 (floor_log2 x + 1)"
  using floor_log2_range[OF assms]
  by (auto simp: floor_log2_def Let_def not_le)

lemma floor_log2_unique:
  assumes "pow2 k \<le> x" "x < pow2 (k + 1)"
  shows "floor_log2 x = k"
proof -
  have x: "0 < x" using assms(1) pow2_pos[of k] by linarith
  note b = floor_log2_bounds[OF x]
  have "pow2 k < pow2 (floor_log2 x + 1)" using assms(1) b(2) by linarith
  then have 1: "k \<le> floor_log2 x" by (simp add: pow2_less_iff)
  have "pow2 (floor_log2 x) < pow2 (k + 1)" using assms(2) b(1) by linarith
  then have 2: "floor_log2 x \<le> k" by (simp add: pow2_less_iff)
  from 1 2 show ?thesis by simp
qed

lemma rhe_cases:
  "round_half_even x = \<lfloor>x\<rfloor> \<or> round_half_even x = \<lfloor>x\<rfloor> + 1"
  by (simp add: round_half_even_def Let_def)

lemma rhe_abs_le: "\<bar>of_int (round_half_even x) - x\<bar> \<le> 1 / 2"
proof -
  have "of_int \<lfloor>x\<rfloor> \<le> x" "x < of_int \<lfloor>x\<rfloor> + 1" by linarith+
  then show ?thesis
    by (auto simp: round_half_even_def Let_def abs_le_iff)
qed

lemma rhe_unique:
  assumes "\<bar>x - of_int n\<bar> < 1 / 2"
  shows "round_half_even x = n"
proof -
  have "\<bar>(of_int (round_half_even x) :: rat) - of_int n\<bar> < 1"
    using rhe_abs_le[of x] assms by linarith
  then have "\<bar>(of_int (round_half_even x - n) :: rat)\<bar> < 1" by simp
  then have "\<bar>round_half_even x - n\<bar> < 1"
    by (metis of_int_abs of_int_less_1_iff)
  then show ?thesis by simp
qed

lemma rhe_of_int [simp]: "round_half_even (of_int n) = n"
  by (rule rhe_unique) simp

lemma rhe_mono:
  assumes "x \<le> y"
  shows "round_half_even x \<le> round_half_even y"
proof (cases "\<lfloor>x\<rfloor> = \<lfloor>y\<rfloor>")
  case True
  then show ?thesis using assms
    by (auto simp: round_half_even_def Let_def)
next
  case False
  then have "\<lfloor>x\<rfloor> < \<lfloor>y\<rfloor>" using floor_mono[OF assms] by linarith
  moreover have "round_half_even x \<le> \<lfloor>x\<rfloor> + 1" using rhe_cases[of x] by auto
  moreover have "\<lfloor>y\<rfloor> \<le> round_half_even y" using rhe_cases[of y] by auto
  ultimately show ?thesis by linarith
qed

lemma rhe_nonneg: "0 \<le> x \<Longrightarrow> 0 \<le> round_half_even x"
  using rhe_mono[of 0 x] rhe_of_int[of 0] by simp

lemma rhe_le: "x \<le> of_int n \<Longrightarrow> round_half_even x \<le> n"
  using rhe_mono[of x "of_int n"] by simp

lemma rhe_ge: "of_int n \<le> x \<Longrightarrow> n \<le> round_half_even x"
  using rhe_mono[of "of_int n" x] by simp

lemma round64_unfold:
  "round64 x = (if x = 0 then Finite 0
     else if pow2 1024 \<le> r64_mag x then (if 0 < x then PosInf else NegInf)
     else Finite (sgn x * r64_mag x))"
  by (simp add: round64_def r64_mag_def r64_exp_def Let_def)

lemma r64_exp_neg [simp]: "r64_exp (- x) = r64_exp x"
  by (simp add: r64_exp_def)

lemma r64_mag_neg [simp]: "r64_mag (- x) = r64_mag x"
  by (simp add: r64_mag_def)

lemma r64_mag_nonneg: "0 \<le> r64_mag x"
  unfolding r64_mag_def
  by (intro mult_nonneg_nonneg) (simp_all add: rhe_nonneg)

lemma round64_neg: "round64 (- x) = fneg (round64 x)"
  by (simp add: round64_unfold sgn_if)

lemma r64_mag_err: "\<bar>r64_mag x - \<bar>x\<bar>\<bar> \<le> pow2 (r64_exp x) / 2"
proof -
  let ?e = "r64_exp x"
  have "\<bar>of_int (round_half_even (\<bar>x\<bar> / pow2 ?e)) - \<bar>x\<bar> / pow2 ?e\<bar> \<le> 1 / 2"
    by (rule rhe_abs_le)
  then have "\<bar>of_int (round_half_even (\<bar>x\<bar> / pow2 ?e)) - \<bar>x\<bar> / pow2 ?e\<bar> * pow2 ?e
      \<le> 1 / 2 * pow2 ?e"
    by (rule mult_right_mono) simp
  moreover have "\<bar>of_int (round_half_even (\<bar>x\<bar> / pow2 ?e)) - \<bar>x\<bar> / pow2 ?e\<bar> * pow2 ?e
      = \<bar>r64_mag x - \<bar>x\<bar>\<bar>"
  proof -
    have "\<bar>of_int (round_half_even (\<bar>x\<bar> / pow2 ?e)) - \<bar>x\<bar> / pow2 ?e\<bar> * \<bar>pow2 ?e\<bar>
      = \<bar>(of_int (round_half_even (\<bar>x\<bar> / pow2 ?e)) - \<bar>x\<bar> / pow2 ?e) * pow2 ?e\<bar>"
      by (simp only: abs_mult)
    also have "\<dots> = \<bar>r64_mag x - \<bar>x\<bar>\<bar>"
      by (simp add: r64_mag_def algebra_simps)
    finally show ?thesis by simp
  qed
  ultimately show ?thesis by simp
qed

text \<open>The value of a finite result is within half a unit in the last place.\<close>

lemma round64_err:
  assumes "round64 x = Finite y"
  shows "\<bar>y - x\<bar> \<le> pow2 (r64_exp x) / 2"
proof (cases "x = 0")
  case True
  then show ?thesis using assms by (simp add: round64_unfold)
next
  case False
  then have y: "y = sgn x * r64_mag x"
    using assms by (auto simp: round64_unfold split: if_splits)
  have "\<bar>y - x\<bar> = \<bar>r64_mag x - \<bar>x\<bar>\<bar>"
    using False by (cases "0 < x") (auto simp: y sgn_if abs_if)
  then show ?thesis using r64_mag_err[of x] by simp
qed

lemma r64_exp_rel:
  assumes "pow2 (- 1022) \<le> \<bar>x\<bar>"
  shows "pow2 (r64_exp x) \<le> \<bar>x\<bar> * pow2 (- 52)"
proof -
  have x: "0 < \<bar>x\<bar>" using assms pow2_pos[of "- 1022"] by linarith
  note b = floor_log2_bounds[OF x]
  have "pow2 (- 1022) < pow2 (floor_log2 \<bar>x\<bar> + 1)" using assms b(2) by linarith
  then have "- 1022 \<le> floor_log2 \<bar>x\<bar>" by (simp add: pow2_less_iff)
  then have e: "r64_exp x = floor_log2 \<bar>x\<bar> - 52" by (simp add: r64_exp_def)
  have "pow2 (r64_exp x) = pow2 (floor_log2 \<bar>x\<bar>) * pow2 (- 52)"
    by (simp add: e pow2_add[symmetric])
  also have "\<dots> \<le> \<bar>x\<bar> * pow2 (- 52)"
    using b(1) by (simp add: mult_right_mono)
  finally show ?thesis .
qed

lemma round64_rel_err:
  assumes "round64 x = Finite y" "pow2 (- 1022) \<le> \<bar>x\<bar>"
  shows "\<bar>y - x\<bar> \<le> \<bar>x\<bar> * pow2 (- 53)"
proof -
  have "\<bar>y - x\<bar> \<le> pow2 (r64_exp x) / 2" by (rule round64_err[OF assms(1)])
  also have "\<dots> \<le> \<bar>x\<bar> * pow2 (- 52) / 2"
    using r64_exp_rel[OF assms(2)] by simp
  also have "\<dots> = \<bar>x\<bar> * pow2 (- 53)"
    by (simp add: pow2_def)
  finally show ?thesis .
qed

lemma r64_exp_eq:
  assumes "- 1074 \<le> e" "\<bar>x\<bar> < pow2 (e + 53)" "pow2 (e + 52) \<le> \<bar>x\<bar> \<or> e = - 1074" "x \<noteq> 0"
  shows "r64_exp x = e"
proof -
  have x: "0 < \<bar>x\<bar>" using assms(4) by simp
  note b = floor_log2_bounds[OF x]
  show ?thesis
  proof (cases "pow2 (e + 52) \<le> \<bar>x\<bar>")
    case True
    have "floor_log2 \<bar>x\<bar> = e + 52"
      using True assms(2) by (intro floor_log2_unique) (simp_all add: add.commute add.left_commute)
    then show ?thesis using assms(1) by (simp add: r64_exp_def)
  next
    case False
    then have e: "e = - 1074" using assms(3) by simp
    have "pow2 (floor_log2 \<bar>x\<bar>) < pow2 (e + 53)" using b(1) assms(2) by linarith
    then have "floor_log2 \<bar>x\<bar> < e + 53" by (simp add: pow2_less_iff)
    then show ?thesis by (simp add: r64_exp_def e)
  qed
qed

lemma round64_cert:
  assumes "0 < x" "- 1074 \<le> e" "x < pow2 (e + 53)" "pow2 (e + 52) \<le> x \<or> e = - 1074"
    and "\<bar>x - of_int m * pow2 e\<bar> < pow2 e / 2" "of_int m * pow2 e < pow2 1024"
  shows "round64 x = Finite (of_int m * pow2 e)"
proof -
  have ax: "\<bar>x\<bar> = x" using assms(1) by simp
  have e: "r64_exp x = e"
    using assms by (intro r64_exp_eq) (simp_all add: ax)
  have "\<bar>x / pow2 e - of_int m\<bar> * pow2 e = \<bar>x - of_int m * pow2 e\<bar>"
  proof -
    have "\<bar>x / pow2 e - of_int m\<bar> * \<bar>pow2 e\<bar> = \<bar>(x / pow2 e - of_int m) * pow2 e\<bar>"
      by (simp only: abs_mult)
    then show ?thesis by (simp add: algebra_simps)
  qed
  then have "\<bar>x / pow2 e - of_int m\<bar> * pow2 e < 1 / 2 * pow2 e"
    using assms(5) by simp
  then have "\<bar>x / pow2 e - of_int m\<bar> < 1 / 2"
    by (simp only: mult_less_cancel_right_pos[OF pow2_pos])
  then have m: "round_half_even (x / pow2 e) = m" by (rule rhe_unique)
  have mag: "r64_mag x = of_int m * pow2 e"
    by (simp add: r64_mag_def e ax m)
  show ?thesis
    using assms(1,6) by (simp add: round64_unfold mag not_le)
qed

lemma round64_exact:
  assumes "0 < m" "- 1074 \<le> e" "m < 2 ^ 53" "2 ^ 52 \<le> m \<or> e = - 1074" "e \<le> 971"
  shows "round64 (of_int m * pow2 e) = Finite (of_int m * pow2 e)"
proof (rule round64_cert)
  show "0 < rat_of_int m * pow2 e" using assms(1) by simp
  show "- 1074 \<le> e" by fact
  have "rat_of_int m < 2 ^ 53" using assms(3)
    by (metis of_int_less_iff of_int_numeral of_int_power)
  then show "rat_of_int m * pow2 e < pow2 (e + 53)"
    by (simp add: pow2_add pow2_def[of 53] mult.commute)
  then have "rat_of_int m * pow2 e < pow2 1024"
    using pow2_mono[of "e + 53" 1024] assms(5) by linarith
  then show "rat_of_int m * pow2 e < pow2 1024" .
  show "pow2 (e + 52) \<le> rat_of_int m * pow2 e \<or> e = - 1074"
  proof (cases "e = - 1074")
    case False
    then have "2 ^ 52 \<le> m" using assms(4) by simp
    then have "(2::rat) ^ 52 \<le> rat_of_int m"
      by (metis of_int_le_iff of_int_numeral of_int_power)
    then show ?thesis by (simp add: pow2_add pow2_def[of 52] mult.commute)
  qed simp
  show "\<bar>rat_of_int m * pow2 e - rat_of_int m * pow2 e\<bar> < pow2 e / 2" by simp
qed

lemma round64_1: "round64 1 = Finite 1"
  using round64_exact[of 4503599627370496 "-52"] by (simp add: pow2_def)

lemma round64_12: "round64 12 = Finite 12"
  using round64_exact[of 6755399441055744 "-49"] by (simp add: pow2_def)

lemma round64_13: "round64 13 = Finite 13"
  using round64_exact[of 7318349394477056 "-49"] by (simp add: pow2_def)

lemma pow2_numeral_neg: "pow2 (- 53) = 1 / 2 ^ 53" "pow2 (- 52) = 1 / 2 ^ 52"
  "pow2 (- 1075) = 1 / 2 ^ 1075" "pow2 (- 1074) = 1 / 2 ^ 1074" "pow2 (- 1022) = 1 / 2 ^ 1022"
  by (simp_all add: pow2_def)

lemma round64_abs_err:
  assumes "round64 x = Finite y"
  shows "\<bar>y - x\<bar> \<le> \<bar>x\<bar> * pow2 (- 53) + pow2 (- 1075)"
proof (cases "pow2 (- 1022) \<le> \<bar>x\<bar>")
  case True
  have "0 \<le> pow2 (- 1075)" by simp
  then show ?thesis using round64_rel_err[OF assms True] by linarith
next
  case False
  show ?thesis
  proof (cases "x = 0")
    case True
    then show ?thesis using assms by (simp add: round64_def)
  next
    case nz: False
    then have x: "0 < \<bar>x\<bar>" by simp
    note b = floor_log2_bounds[OF x]
    have "pow2 (floor_log2 \<bar>x\<bar>) < pow2 (- 1022)" using b(1) False by linarith
    then have "floor_log2 \<bar>x\<bar> < - 1022" by (simp add: pow2_less_iff)
    then have e: "r64_exp x = - 1074" by (simp add: r64_exp_def)
    have "\<bar>y - x\<bar> \<le> pow2 (- 1074) / 2" using round64_err[OF assms] by (simp add: e)
    also have "\<dots> = pow2 (- 1075)" by (simp add: pow2_def)
    finally have "\<bar>y - x\<bar> \<le> pow2 (- 1075)" .
    moreover have "0 \<le> \<bar>x\<bar> * pow2 (- 53)" by simp
    ultimately show ?thesis by linarith
  qed
qed

lemma round64_int_exact:
  assumes "0 \<le> n" "n \<le> 2 ^ 53"
  shows "round64 (of_int n) = Finite (of_int n)"
proof (cases "n = 0")
  case True
  then show ?thesis by (simp add: round64_def)
next
  case False
  then have n: "0 < n" using assms(1) by simp
  let ?x = "rat_of_int n"
  have ax: "\<bar>?x\<bar> = ?x" using n by simp
  have x: "0 < \<bar>?x\<bar>" using n by simp
  note b = floor_log2_bounds[OF x]
  have "?x \<le> 2 ^ 53" using assms(2) by (metis of_int_le_iff of_int_numeral of_int_power)
  then have "pow2 (floor_log2 \<bar>?x\<bar>) \<le> pow2 53" using b(1) by (simp add: ax pow2_def)
  then have k: "floor_log2 \<bar>?x\<bar> \<le> 53" by (simp add: pow2_le_iff)
  define e where "e = r64_exp ?x"
  have e1: "e \<le> 1" using k by (simp add: e_def r64_exp_def)
  have e0: "- 1074 \<le> e" by (simp add: e_def r64_exp_def)
  have int: "\<exists>j. ?x / pow2 e = of_int j"
  proof (cases "e \<le> 0")
    case True
    then have "pow2 e = 1 / 2 ^ nat (- e)" by (cases "e = 0") (simp_all add: pow2_def)
    then have "?x / pow2 e = of_int (n * 2 ^ nat (- e))" by simp
    then show ?thesis by blast
  next
    case False
    then have e: "e = 1" using e1 by simp
    then have "floor_log2 \<bar>?x\<bar> = 53" using k by (simp add: e_def r64_exp_def)
    then have "pow2 53 \<le> ?x" using b(1) by (simp add: ax)
    then have "?x = 2 ^ 53" using \<open>?x \<le> 2 ^ 53\<close> by (simp add: pow2_def)
    then have "?x / pow2 e = of_int (2 ^ 52)" by (simp add: e)
    then show ?thesis by blast
  qed
  then obtain j where j: "?x / pow2 e = of_int j" ..
  have mag: "r64_mag ?x = ?x"
    by (simp add: r64_mag_def ax e_def[symmetric] j) (simp add: j[symmetric])
  have "?x < pow2 1024"
  proof -
    have "(2::rat) ^ 53 < 2 ^ 1024" by simp
    then show ?thesis using \<open>?x \<le> 2 ^ 53\<close> by (simp add: pow2_def)
  qed
  then show ?thesis using n by (simp add: round64_unfold mag not_le)
qed

lemma py_round2_err:
  assumes "py_round2 (Finite x) = Finite y"
  shows "\<bar>y - x\<bar> \<le> 1 / 200 + \<bar>y\<bar> * pow2 (- 52)"
proof -
  define D where "D = rat_of_int (round_half_even (x * 100)) / 100"
  have r: "round64 D = Finite y" using assms by (simp add: D_def)
  have "\<bar>rat_of_int (round_half_even (x * 100)) - x * 100\<bar> \<le> 1 / 2" by (rule rhe_abs_le)
  then have d: "\<bar>D - x\<bar> \<le> 1 / 200" by (simp add: D_def abs_le_iff field_simps)
  show ?thesis
  proof (cases "D = 0")
    case True
    then have "y = 0" using r by (simp add: round64_def)
    then show ?thesis using d True by simp
  next
    case False
    then have "round_half_even (x * 100) \<noteq> 0" by (auto simp: D_def)
    then have "1 \<le> \<bar>round_half_even (x * 100)\<bar>" by linarith
    then have "1 \<le> \<bar>rat_of_int (round_half_even (x * 100))\<bar>"
      by (metis of_int_1_le_iff of_int_abs)
    then have D1: "1 / 100 \<le> \<bar>D\<bar>" by (simp add: D_def)
    have "pow2 (- 1022) \<le> 1 / 100" by (simp add: pow2_def)
    then have "pow2 (- 1022) \<le> \<bar>D\<bar>" using D1 by linarith
    from round64_rel_err[OF r this] have yd: "\<bar>y - D\<bar> \<le> \<bar>D\<bar> * pow2 (- 53)" .
    have t: "\<bar>D\<bar> \<le> \<bar>y\<bar> + \<bar>y - D\<bar>" by linarith
    have "\<bar>D\<bar> * pow2 (- 53) \<le> \<bar>D\<bar> * (1 / 2)"
      by (intro mult_left_mono) (simp_all add: pow2_def)
    then have "\<bar>D\<bar> \<le> \<bar>y\<bar> * 2" using yd t by linarith
    then have "\<bar>D\<bar> * pow2 (- 53) \<le> \<bar>y\<bar> * pow2 (- 52)"
      by (simp add: pow2_numeral_neg)
    then show ?thesis using yd d by linarith
  qed
qed

lemma rhe_tie:
  assumes "\<bar>x - of_int n\<bar> = 1 / 2" "even n"
  shows "round_half_even x = n"
proof (cases "x = of_int n + 1 / 2")
  case True
  then have "\<lfloor>x\<rfloor> = n" by (simp add: floor_unique)
  then show ?thesis using True assms(2) by (simp add: round_half_even_def)
next
  case False
  then have x: "x = of_int n - 1 / 2" using assms(1) by (simp add: abs_if split: if_splits)
  then have "\<lfloor>x\<rfloor> = n - 1" by (simp add: floor_unique)
  then show ?thesis using x assms(2) by (simp add: round_half_even_def)
qed

lemma py_round2_Finite:
  assumes "py_round2 f = Finite y"
  shows "\<exists>x. f = Finite x"
  using assms by (cases f) simp_all

lemma fmul_Finite:
  assumes "fmul a b = Finite y"
  shows "\<exists>x z. a = Finite x \<and> b = Finite z \<and> round64 (x * z) = Finite y"
  using assms by (cases a; cases b) (simp_all add: signed_inf_def split: if_splits)

lemma fadd_Finite:
  assumes "fadd a b = Finite y"
  shows "\<exists>x z. a = Finite x \<and> b = Finite z \<and> round64 (x + z) = Finite y"
  using assms by (cases a; cases b) simp_all

lemma fsub_Finite:
  assumes "fsub a b = Finite y"
  shows "\<exists>x z. a = Finite x \<and> b = Finite z \<and> round64 (x - z) = Finite y"
proof -
  from fadd_Finite[OF assms[unfolded fsub_def]]
  obtain x z' where a: "a = Finite x" and b: "fneg b = Finite z'"
    and r: "round64 (x + z') = Finite y" by blast
  from b obtain z where z: "b = Finite z" "z' = - z" by (cases b) simp_all
  show ?thesis using a z r by simp
qed

lemma calculate_emi_Inr:
  assumes "calculate_emi cpow principal_amt annual_rate tenure_months = Inr res"
  shows "\<exists>r12 monthly_rate monthly_emi n.
      fdiv annual_rate (Finite 12) = Inr r12 \<and> fdiv r12 (Finite 100) = Inr monthly_rate
    \<and> monthly_emi_of cpow principal_amt monthly_rate tenure_months = Inr monthly_emi
    \<and> int_to_float tenure_months = Inr n
    \<and> res = \<lparr>monthlyEMI = py_round2 monthly_emi,
              totalInterest = py_round2 (fsub (fmul monthly_emi n) principal_amt),
              totalPayable = py_round2 (fmul monthly_emi n),
              schedule = schedule_loop monthly_emi monthly_rate principal_amt
                           (schedule_months tenure_months),
              tenure = tenure_months\<rparr>"
  using assms by (auto simp: calculate_emi_def ebind_eq_Inr Let_def)

lemma int_to_float_exact:
  assumes "0 \<le> n" "n \<le> 2 ^ 53"
  shows "int_to_float n = Inr (Finite (of_int n))"
  by (simp add: int_to_float_def round64_int_exact[OF assms])
section \<open>Properties of the validator\<close>

lemma validate_cnic_JStr [simp]:
  "validate_cnic (JStr s) = Inr (re_match_from cnic_pattern True s)"
  by (simp add: validate_cnic_def)

lemma error_texts_distinct [simp]:
  "age_error ''Home'' \<noteq> cnic_error" "age_error ''Car'' \<noteq> cnic_error"
  "business_error \<noteq> cnic_error" "student_error \<noteq> cnic_error"
  "acres_error ''Agriculture'' \<noteq> cnic_error" "acres_error ''Dairy'' \<noteq> cnic_error"
  by (simp_all add: age_error_def cnic_error_def business_error_def student_error_def acres_error_def)

text \<open>The result of validate_loan, whenever it returns, in closed form.\<close>

lemma validate_loan_result:
  assumes "validate_loan str_int str_float data = Inr errs"
  shows "\<exists>c age. dict_get data ''cnic'' (JStr []) = JStr c
           \<and> py_int str_int (dict_get data ''age'' (JInt 0)) = Inr age
           \<and> errs = (if re_match_from cnic_pattern True c then [] else [cnic_error])
                 @ type_errors errs
           \<and> (type_errors errs = [] \<or>
                type_errors errs = [spec_rule_message (dict_get data ''loanType'' (JStr ''Home''))])"
proof -
  from assms obtain ok where ok: "validate_cnic (dict_get data ''cnic'' (JStr [])) = Inr ok"
    by (auto simp: validate_loan_def ebind_eq_Inr)
  then obtain c where c: "dict_get data ''cnic'' (JStr []) = JStr c"
    by (auto simp: validate_cnic_def split: json.splits)
  from assms obtain age where age: "py_int str_int (dict_get data ''age'' (JInt 0)) = Inr age"
    by (auto simp: validate_loan_def ebind_eq_Inr Let_def)
  show ?thesis
    using assms c age
    by (auto simp: validate_loan_def Let_def type_errors_def spec_rule_message_def type_text_def
          ebind_eq_Inr split: if_splits)
qed

lemma dict_get_Cons:
  "dict_get ((k, v) # data) k' d = (if k' = k then v else dict_get data k' d)"
  by (simp add: dict_get_def)

lemma dict_get_absent: "map_of data k = None \<Longrightarrow> dict_get data k d = d"
  by (simp add: dict_get_def)

lemma int_to_float_0 [simp]: "int_to_float 0 = Inr (Finite 0)"
  by (simp add: int_to_float_def round64_def)

lemma validate_loan_typed:
  assumes "dict_get data ''cnic'' (JStr []) = JStr c"
    and "py_int str_int (dict_get data ''age'' (JInt 0)) = Inr age"
    and "py_int str_int (dict_get data ''studentAge'' (JInt 0)) = Inr student_age"
    and "py_float str_float (dict_get data ''landAcres'' (JInt 0)) = Inr land_acres"
  shows "validate_loan str_int str_float data =
     Inr ((if re_match_from cnic_pattern True c then [] else [cnic_error]) @
          (if spec_rule_violated (dict_get data ''loanType'' (JStr ''Home'')) age student_age land_acres
           then [spec_rule_message (dict_get data ''loanType'' (JStr ''Home''))] else []))"
  using assms
  by (simp add: validate_loan_def Let_def spec_rule_violated_def spec_rule_message_def)

text \<open>
  Claim C5. For an application whose CNIC is a string and whose numeric fields coerce
  (an absent \<open>age\<close> or \<open>studentAge\<close> counting as 0 and an absent \<open>landAcres\<close> as 0.0),
  \<open>validate_loan\<close> returns, and the entries of its list other than the CNIC error are
  exactly what the rule of the loan type in the specification's table gives: the message
  of that rule when its error condition holds, nothing otherwise.
\<close>

theorem validate_applies_type_rule:
  assumes "dict_get data ''cnic'' (JStr []) = JStr c"
    and "py_int str_int (dict_get data ''age'' (JInt 0)) = Inr age"
    and "py_int str_int (dict_get data ''studentAge'' (JInt 0)) = Inr student_age"
    and "py_float str_float (dict_get data ''landAcres'' (JInt 0)) = Inr land_acres"
  shows "\<exists>errs. validate_loan str_int str_float data = Inr errs
           \<and> type_errors errs =
               (if spec_rule_violated (dict_get data ''loanType'' (JStr ''Home''))
                     age student_age land_acres
                then [spec_rule_message (dict_get data ''loanType'' (JStr ''Home''))] else [])
           \<and> (map_of data ''age'' = None \<longrightarrow> age = 0)
           \<and> (map_of data ''studentAge'' = None \<longrightarrow> student_age = 0)
           \<and> (map_of data ''landAcres'' = None \<longrightarrow> land_acres = Finite 0)"
proof -
  let ?lt = "dict_get data ''loanType'' (JStr ''Home'')"
  have m: "spec_rule_violated ?lt age student_age land_acres \<Longrightarrow> spec_rule_message ?lt \<noteq> cnic_error"
    by (auto simp: spec_rule_violated_def spec_rule_message_def type_text_def split: if_splits)
  have d: "map_of data ''age'' = None \<longrightarrow> age = 0"
    "map_of data ''studentAge'' = None \<longrightarrow> student_age = 0"
    "map_of data ''landAcres'' = None \<longrightarrow> land_acres = Finite 0"
    using assms(2,3,4) by (auto simp: dict_get_absent py_int_def py_float_def)
  show ?thesis
    using d m by (simp add: validate_loan_typed[OF assms] type_errors_def)
qed

lemma int_to_float_13: "int_to_float 13 = Inr (Finite 13)"
  by (simp add: int_to_float_def round64_13)

text \<open>
  The four cases the specification names: a Home loan at age 21 gets the age error and at
  age 30 none; an Agriculture loan with 13 acres gets the acreage error and with 13.5
  acres none.
\<close>

theorem validate_applies_type_rule_witness:
  "(\<exists>errs. validate_loan (\<lambda>s. None) (\<lambda>s. None)
        [(''cnic'', JStr ''12345-1234567-1''), (''loanType'', JStr ''Home''), (''age'', JInt 21)]
        = Inr errs \<and> type_errors errs = [age_error ''Home''])
   \<and> (\<exists>errs. validate_loan (\<lambda>s. None) (\<lambda>s. None)
        [(''cnic'', JStr ''12345-1234567-1''), (''loanType'', JStr ''Home''), (''age'', JInt 30)]
        = Inr errs \<and> type_errors errs = [])
   \<and> (\<exists>errs. validate_loan (\<lambda>s. None) (\<lambda>s. None)
        [(''cnic'', JStr ''12345-1234567-1''), (''loanType'', JStr ''Agriculture''),
         (''landAcres'', JInt 13)]
        = Inr errs \<and> type_errors errs = [acres_error ''Agriculture''])
   \<and> (\<exists>errs. validate_loan (\<lambda>s. None) (\<lambda>s. None)
        [(''cnic'', JStr ''12345-1234567-1''), (''loanType'', JStr ''Agriculture''),
         (''landAcres'', JFloat (Finite (27 / 2)))]
        = Inr errs \<and> type_errors errs = [])"
proof -
  let ?c = "(''cnic'', JStr ''12345-1234567-1'')"
  note defs = dict_get_Cons dict_get_def py_int_def py_float_def spec_rule_violated_def
        spec_rule_message_def type_text_def int_to_float_13
  have a: "\<exists>errs. validate_loan (\<lambda>s. None) (\<lambda>s. None)
        [?c, (''loanType'', JStr ''Home''), (''age'', JInt 21)] = Inr errs
      \<and> type_errors errs = [age_error ''Home'']"
    using validate_applies_type_rule[of "[?c, (''loanType'', JStr ''Home''), (''age'', JInt 21)]"
        "''12345-1234567-1''" "\<lambda>s. None" 21 0 "\<lambda>s. None" "Finite 0"]
    by (simp add: defs)
  have b: "\<exists>errs. validate_loan (\<lambda>s. None) (\<lambda>s. None)
        [?c, (''loanType'', JStr ''Home''), (''age'', JInt 30)] = Inr errs
      \<and> type_errors errs = []"
    using validate_applies_type_rule[of "[?c, (''loanType'', JStr ''Home''), (''age'', JInt 30)]"
        "''12345-1234567-1''" "\<lambda>s. None" 30 0 "\<lambda>s. None" "Finite 0"]
    by (simp add: defs)
  have c: "\<exists>errs. validate_loan (\<lambda>s. None) (\<lambda>s. None)
        [?c, (''loanType'', JStr ''Agriculture''), (''landAcres'', JInt 13)] = Inr errs
      \<and> type_errors errs = [acres_error ''Agriculture'']"
    using validate_applies_type_rule[of
        "[?c, (''loanType'', JStr ''Agriculture''), (''landAcres'', JInt 13)]"
        "''12345-1234567-1''" "\<lambda>s. None" 0 0 "\<lambda>s. None" "Finite 13"]
    by (simp add: defs)
  have d: "\<exists>errs. validate_loan (\<lambda>s. None) (\<lambda>s. None)
        [?c, (''loanType'', JStr ''Agriculture''), (''landAcres'', JFloat (Finite (27 / 2)))]
        = Inr errs \<and> type_errors errs = []"
    using validate_applies_type_rule[of
        "[?c, (''loanType'', JStr ''Agriculture''), (''landAcres'', JFloat (Finite (27 / 2)))]"
        "''12345-1234567-1''" "\<lambda>s. None" 0 0 "\<lambda>s. None" "Finite (27 / 2)"]
    by (simp add: defs)
  from a b c d show ?thesis by blast
qed

lemma cnic_newline_match:
  "re_match_from cnic_pattern True (''12345-1234567-1'' @ [CHR 0x0A])"
  by (simp add: cnic_pattern_def is_digit_def)

lemma cnic_newline_shape: "\<not> cnic_shape (''12345-1234567-1'' @ [CHR 0x0A])"
  by (simp add: cnic_shape_def)

text \<open>
  Claim C6. The claim is that the CNIC error is appended exactly when the CNIC is not of
  the form of five digits, a hyphen, seven digits, a hyphen and one digit. The pattern
  of the source ends in \<^verbatim>\<open>$\<close>, which also holds before a final newline: the sixteen
  characters of a well-formed CNIC followed by a newline are not of that form, and
  \<open>validate_loan\<close> appends no error for them.
\<close>

theorem cnic_trailing_newline_accepted:
  "validate_loan str_int str_float
      [(''cnic'', JStr (''12345-1234567-1'' @ [CHR 0x0A])), (''loanType'', JStr ''Home''),
       (''age'', JInt 30)] = Inr []
   \<and> \<not> cnic_shape (''12345-1234567-1'' @ [CHR 0x0A])"
  using cnic_newline_match cnic_newline_shape
  by (simp add: validate_loan_def dict_get_def py_int_def)

lemma validate_loan_split:
  "validate_loan str_int str_float data =
     ebind (validate_cnic (dict_get data ''cnic'' (JStr []))) (\<lambda>cnic_ok.
       ebind (type_checks str_int str_float data) (\<lambda>t.
         Inr ((if cnic_ok then [] else [cnic_error]) @ t)))"
  by (simp add: validate_loan_def type_checks_def Let_def ebind_def split: sum.splits)

lemma type_checks_no_cnic:
  assumes "type_checks str_int str_float data = Inr t"
  shows "filter (\<lambda>e. e \<noteq> cnic_error) t = t" and "length t \<le> 1"
    and "t = [] \<or> t = [spec_rule_message (dict_get data ''loanType'' (JStr ''Home''))]"
  using assms
  by (auto simp: type_checks_def Let_def ebind_eq_Inr type_text_def spec_rule_message_def
      split: if_splits)

lemma validate_loan_parts:
  assumes "validate_loan str_int str_float data = Inr errs"
  shows "\<exists>c. dict_get data ''cnic'' (JStr []) = JStr c
    \<and> type_checks str_int str_float data = Inr (type_errors errs)
    \<and> errs = (if re_match_from cnic_pattern True c then [] else [cnic_error]) @ type_errors errs"
proof -
  from assms obtain ok t where ok: "validate_cnic (dict_get data ''cnic'' (JStr [])) = Inr ok"
    and t: "type_checks str_int str_float data = Inr t"
    and e: "errs = (if ok then [] else [cnic_error]) @ t"
    by (auto simp: validate_loan_split ebind_eq_Inr)
  from ok obtain c where c: "dict_get data ''cnic'' (JStr []) = JStr c"
    by (auto simp: validate_cnic_def split: json.splits)
  have te: "type_errors errs = t"
    using type_checks_no_cnic(1)[OF t] by (simp add: e type_errors_def)
  show ?thesis using ok c t e te by auto
qed

text \<open>
  Claim C7. On an application whose CNIC is a string and whose numeric fields coerce,
  \<open>validate_loan\<close> returns one list: the CNIC error when the CNIC does not match the
  pattern, followed by the message of the loan type's rule when that rule is violated.
  Each of the two checks contributes whatever the outcome of the other: replacing the
  CNIC by any other string changes the first part only. The response of the handler
  carries this list, and has \<open>isValid\<close> true exactly when the CNIC matches and the rule
  is not violated, that is when the list is empty; for every request body, also one that
  makes the validator raise, \<open>isValid\<close> is true exactly when the list of errors of the
  response is empty.
\<close>

theorem validate_accumulates:
  assumes "dict_get data ''cnic'' (JStr []) = JStr c"
    and "py_int str_int (dict_get data ''age'' (JInt 0)) = Inr age"
    and "py_int str_int (dict_get data ''studentAge'' (JInt 0)) = Inr student_age"
    and "py_float str_float (dict_get data ''landAcres'' (JInt 0)) = Inr land_acres"
  shows "validate_loan str_int str_float data =
           Inr ((if re_match_from cnic_pattern True c then [] else [cnic_error]) @
                (if spec_rule_violated (dict_get data ''loanType'' (JStr ''Home''))
                      age student_age land_acres
                 then [spec_rule_message (dict_get data ''loanType'' (JStr ''Home''))]
                 else []))
    \<and> validate_loan str_int str_float ((''cnic'', JStr c') # data) =
           Inr ((if re_match_from cnic_pattern True c' then [] else [cnic_error]) @
                (if spec_rule_violated (dict_get data ''loanType'' (JStr ''Home''))
                      age student_age land_acres
                 then [spec_rule_message (dict_get data ''loanType'' (JStr ''Home''))]
                 else []))
    \<and> (isValid (validate str_int str_float (JObj data)) \<longleftrightarrow>
           re_match_from cnic_pattern True c
           \<and> \<not> spec_rule_violated (dict_get data ''loanType'' (JStr ''Home''))
                 age student_age land_acres)
    \<and> errors (validate str_int str_float (JObj data)) =
           map Text
             ((if re_match_from cnic_pattern True c then [] else [cnic_error]) @
              (if spec_rule_violated (dict_get data ''loanType'' (JStr ''Home''))
                    age student_age land_acres
               then [spec_rule_message (dict_get data ''loanType'' (JStr ''Home''))]
               else []))
    \<and> (isValid (validate str_int str_float body) \<longleftrightarrow>
           errors (validate str_int str_float body) = [])"
proof -
  let ?lt = "dict_get data ''loanType'' (JStr ''Home'')"
  let ?t = "if spec_rule_violated ?lt age student_age land_acres
            then [spec_rule_message ?lt] else []"
  let ?data' = "(''cnic'', JStr c') # data"
  have 1: "validate_loan str_int str_float data =
      Inr ((if re_match_from cnic_pattern True c then [] else [cnic_error]) @ ?t)"
    by (rule validate_loan_typed[OF assms])
  have k: "dict_get ?data' ''cnic'' (JStr []) = JStr c'"
    "dict_get ?data' ''age'' (JInt 0) = dict_get data ''age'' (JInt 0)"
    "dict_get ?data' ''studentAge'' (JInt 0) = dict_get data ''studentAge'' (JInt 0)"
    "dict_get ?data' ''landAcres'' (JInt 0) = dict_get data ''landAcres'' (JInt 0)"
    "dict_get ?data' ''loanType'' (JStr ''Home'') = ?lt"
    by (simp_all add: dict_get_Cons)
  have 2: "validate_loan str_int str_float ?data' =
      Inr ((if re_match_from cnic_pattern True c' then [] else [cnic_error]) @ ?t)"
    using validate_loan_typed[of ?data' c' str_int age student_age str_float land_acres]
      assms(2,3,4)
    unfolding k by simp
  have 3: "isValid (validate str_int str_float (JObj data)) \<longleftrightarrow>
      re_match_from cnic_pattern True c \<and> \<not> spec_rule_violated ?lt age student_age land_acres"
    by (simp add: validate_def request_dict_def 1)
  have 4: "errors (validate str_int str_float (JObj data)) =
      map Text ((if re_match_from cnic_pattern True c then [] else [cnic_error]) @ ?t)"
    by (simp add: validate_def request_dict_def 1)
  have 5: "isValid (validate str_int str_float body) \<longleftrightarrow>
           errors (validate str_int str_float body) = []"
    by (simp add: validate_def split: sum.splits)
  from 1 2 3 4 5 show ?thesis by blast
qed

text \<open>
  A Home application at age 21 with a malformed CNIC: both errors are reported, in order,
  and with a well-formed CNIC the age error alone remains. A Home application at age 35
  with a well-formed CNIC has no error and is valid.
\<close>

theorem validate_accumulates_witness:
  "validate_loan (\<lambda>s. None) (\<lambda>s. None)
      [(''cnic'', JStr ''1234-123456-1''), (''loanType'', JStr ''Home''), (''age'', JInt 21)]
     = Inr [cnic_error, age_error ''Home'']
   \<and> validate_loan (\<lambda>s. None) (\<lambda>s. None)
      [(''cnic'', JStr ''12345-1234567-1''), (''cnic'', JStr ''1234-123456-1''),
       (''loanType'', JStr ''Home''), (''age'', JInt 21)]
     = Inr [age_error ''Home'']
   \<and> \<not> isValid (validate (\<lambda>s. None) (\<lambda>s. None)
      (JObj [(''cnic'', JStr ''1234-123456-1''), (''loanType'', JStr ''Home''),
             (''age'', JInt 21)]))
   \<and> errors (validate (\<lambda>s. None) (\<lambda>s. None)
      (JObj [(''cnic'', JStr ''1234-123456-1''), (''loanType'', JStr ''Home''),
             (''age'', JInt 21)])) = [Text cnic_error, Text (age_error ''Home'')]
   \<and> validate_loan (\<lambda>s. None) (\<lambda>s. None)
      [(''cnic'', JStr ''12345-1234567-1''), (''loanType'', JStr ''Home''), (''age'', JInt 35)]
     = Inr []
   \<and> isValid (validate (\<lambda>s. None) (\<lambda>s. None)
      (JObj [(''cnic'', JStr ''12345-1234567-1''), (''loanType'', JStr ''Home''),
             (''age'', JInt 35)]))"
proof -
  let ?d = "[(''cnic'', JStr ''1234-123456-1''), (''loanType'', JStr ''Home''), (''age'', JInt 21)]"
  let ?e = "[(''cnic'', JStr ''12345-1234567-1''), (''loanType'', JStr ''Home''),
             (''age'', JInt 35)]"
  have bad: "\<not> re_match_from cnic_pattern True ''1234-123456-1''"
    by (simp add: cnic_pattern_def is_digit_def)
  have good: "re_match_from cnic_pattern True ''12345-1234567-1''"
    by (simp add: cnic_pattern_def is_digit_def)
  note defs = dict_get_def py_int_def py_float_def spec_rule_violated_def
    spec_rule_message_def type_text_def
  have a: "validate_loan (\<lambda>s. None) (\<lambda>s. None) ?d = Inr [cnic_error, age_error ''Home'']
    \<and> validate_loan (\<lambda>s. None) (\<lambda>s. None) ((''cnic'', JStr ''12345-1234567-1'') # ?d)
        = Inr [age_error ''Home'']
    \<and> \<not> isValid (validate (\<lambda>s. None) (\<lambda>s. None) (JObj ?d))
    \<and> errors (validate (\<lambda>s. None) (\<lambda>s. None) (JObj ?d))
        = [Text cnic_error, Text (age_error ''Home'')]"
    using validate_accumulates[of ?d "''1234-123456-1''" "\<lambda>s. None" 21 0 "\<lambda>s. None"
        "Finite 0" "''12345-1234567-1''"] bad good
    by (simp add: defs)
  have b: "validate_loan (\<lambda>s. None) (\<lambda>s. None) ?e = Inr []
    \<and> isValid (validate (\<lambda>s. None) (\<lambda>s. None) (JObj ?e))"
    using validate_accumulates[of ?e "''12345-1234567-1''" "\<lambda>s. None" 35 0 "\<lambda>s. None"
        "Finite 0" "''12345-1234567-1''"] good
    by (simp add: defs)
  from a b show ?thesis by simp
qed

text \<open>
  Claim C8. When the key \<open>loanType\<close> is absent, \<open>validate_loan\<close> behaves as on the same
  application with \<open>loanType\<close> set to Home, so the rule for ages 22 to 60 applies. When the
  key is present with a value that is none of the six recognized types, the list returned
  has no type-specific entry: the CNIC error is the only entry it can have.
\<close>

theorem validate_default_loan_type:
  "(map_of data ''loanType'' = None \<longrightarrow>
      validate_loan str_int str_float data =
      validate_loan str_int str_float ((''loanType'', JStr ''Home'') # data))
   \<and> (map_of data ''loanType'' = None \<and> validate_loan str_int str_float data = Inr errs
        \<and> py_int str_int (dict_get data ''age'' (JInt 0)) = Inr age \<longrightarrow>
      type_errors errs = (if age < 22 \<or> 60 < age then [age_error ''Home''] else []))
   \<and> (map_of data ''loanType'' = Some v \<and> v \<notin> recognized_types
        \<and> validate_loan str_int str_float data = Inr errs \<longrightarrow>
      type_errors errs = [] \<and> set errs \<subseteq> {cnic_error})"
proof (intro conjI impI)
  assume "map_of data ''loanType'' = None"
  then show "validate_loan str_int str_float data =
      validate_loan str_int str_float ((''loanType'', JStr ''Home'') # data)"
    by (simp add: validate_loan_def dict_get_def cong: if_cong)
next
  assume a: "map_of data ''loanType'' = None \<and> validate_loan str_int str_float data = Inr errs
        \<and> py_int str_int (dict_get data ''age'' (JInt 0)) = Inr age"
  then have lt: "dict_get data ''loanType'' (JStr ''Home'') = JStr ''Home''"
    by (simp add: dict_get_def)
  from a validate_loan_parts[of str_int str_float data errs]
  have "type_checks str_int str_float data = Inr (type_errors errs)" by auto
  then show "type_errors errs = (if age < 22 \<or> 60 < age then [age_error ''Home''] else [])"
    using a lt by (auto simp: type_checks_def type_text_def)
next
  assume a: "map_of data ''loanType'' = Some v \<and> v \<notin> recognized_types
        \<and> validate_loan str_int str_float data = Inr errs"
  then have lt: "dict_get data ''loanType'' (JStr ''Home'') = v"
    by (simp add: dict_get_def)
  from a validate_loan_parts[of str_int str_float data errs]
  obtain c where t: "type_checks str_int str_float data = Inr (type_errors errs)"
    and e: "errs = (if re_match_from cnic_pattern True c then [] else [cnic_error]) @ type_errors errs"
    by auto
  from t a lt show 1: "type_errors errs = []"
    by (auto simp: type_checks_def recognized_types_def ebind_eq_Inr split: if_splits)
  from e 1 have "errs = (if re_match_from cnic_pattern True c then [] else [cnic_error])" by simp
  then show "set errs \<subseteq> {cnic_error}" by (auto split: if_splits)
qed

text \<open>
  Claim C10. A list returned by \<open>validate_loan\<close> has at most two entries: at most one
  CNIC error and at most one other entry; when the CNIC error is present it is the first.
\<close>

theorem validate_errors_shape:
  assumes "validate_loan str_int str_float data = Inr errs"
  shows "length errs \<le> 2 \<and> count_list errs cnic_error \<le> 1 \<and> length (type_errors errs) \<le> 1
    \<and> (cnic_error \<in> set errs \<longrightarrow> hd errs = cnic_error)"
proof -
  from validate_loan_parts[OF assms]
  obtain c where t: "type_checks str_int str_float data = Inr (type_errors errs)"
    and e: "errs = (if re_match_from cnic_pattern True c then [] else [cnic_error]) @ type_errors errs"
    by auto
  define te where "te = type_errors errs"
  have l: "length te \<le> 1" using type_checks_no_cnic(2)[OF t] by (simp add: te_def)
  have "filter (\<lambda>e. e \<noteq> cnic_error) te = te"
    using type_checks_no_cnic(1)[OF t] by (simp add: te_def)
  then have "\<forall>x\<in>set te. x \<noteq> cnic_error" by (simp only: filter_id_conv)
  then have n: "cnic_error \<notin> set te" by blast
  then have c0: "count_list te cnic_error = 0" by (simp add: count_list_0_iff)
  have e': "errs = (if re_match_from cnic_pattern True c then [] else [cnic_error]) @ te"
    using e by (simp add: te_def)
  have 1: "length errs \<le> 2" using l by (subst e') (simp split: if_splits)
  have 2: "count_list errs cnic_error \<le> 1" using c0 by (subst e') (simp split: if_splits)
  have 3: "cnic_error \<in> set errs \<longrightarrow> hd errs = cnic_error"
  proof
    assume "cnic_error \<in> set errs"
    then have "\<not> re_match_from cnic_pattern True c"
      using n e' by (auto split: if_splits)
    then have "errs = cnic_error # te" using e' by simp
    then show "hd errs = cnic_error" by simp
  qed
  from 1 2 3 l show ?thesis by (simp add: te_def)
qed

text \<open>
  An application without \<open>loanType\<close> at age 21 gets the Home age error; one of the
  unknown type Gold at age 21 with a malformed CNIC gets the CNIC error only.
\<close>

theorem validate_default_loan_type_witness:
  "validate_loan (\<lambda>s. None) (\<lambda>s. None) [(''cnic'', JStr ''12345-1234567-1''), (''age'', JInt 21)]
     = validate_loan (\<lambda>s. None) (\<lambda>s. None)
         [(''loanType'', JStr ''Home''), (''cnic'', JStr ''12345-1234567-1''), (''age'', JInt 21)]
   \<and> validate_loan (\<lambda>s. None) (\<lambda>s. None) [(''cnic'', JStr ''12345-1234567-1''), (''age'', JInt 21)]
     = Inr [age_error ''Home'']
   \<and> type_errors [age_error ''Home''] = [age_error ''Home'']
   \<and> JStr ''Gold'' \<notin> recognized_types
   \<and> validate_loan (\<lambda>s. None) (\<lambda>s. None)
        [(''cnic'', JStr ''1234-123456-1''), (''loanType'', JStr ''Gold''), (''age'', JInt 21)]
     = Inr [cnic_error]
   \<and> type_errors [cnic_error] = []"
proof -
  let ?d1 = "[(''cnic'', JStr ''12345-1234567-1''), (''age'', JInt 21)]"
  let ?d2 = "[(''cnic'', JStr ''1234-123456-1''), (''loanType'', JStr ''Gold''), (''age'', JInt 21)]"
  have bad: "\<not> re_match_from cnic_pattern True ''1234-123456-1''"
    by (simp add: cnic_pattern_def is_digit_def)
  have good: "re_match_from cnic_pattern True ''12345-1234567-1''"
    by (simp add: cnic_pattern_def is_digit_def)
  have a1: "map_of ?d1 ''loanType'' = None" by simp
  have a2: "validate_loan (\<lambda>s. None) (\<lambda>s. None) ?d1 = Inr [age_error ''Home'']"
    using good by (simp add: validate_loan_def dict_get_def py_int_def type_text_def)
  have a3: "py_int (\<lambda>s. None) (dict_get ?d1 ''age'' (JInt 0)) = Inr 21"
    by (simp add: dict_get_def py_int_def)
  have b1: "map_of ?d2 ''loanType'' = Some (JStr ''Gold'')" by simp
  have b2: "JStr ''Gold'' \<notin> recognized_types" by (simp add: recognized_types_def)
  have b3: "validate_loan (\<lambda>s. None) (\<lambda>s. None) ?d2 = Inr [cnic_error]"
    using bad by (simp add: validate_loan_def dict_get_def py_int_def)
  from validate_default_loan_type[of ?d1 "\<lambda>s. None" "\<lambda>s. None" "[age_error ''Home'']" 21]
    a1 a2 a3
  have c1: "validate_loan (\<lambda>s. None) (\<lambda>s. None) ?d1 =
      validate_loan (\<lambda>s. None) (\<lambda>s. None) ((''loanType'', JStr ''Home'') # ?d1)"
    and c2: "type_errors [age_error ''Home''] = [age_error ''Home'']"
    by simp_all
  from validate_default_loan_type[of ?d2 "\<lambda>s. None" "\<lambda>s. None" "[cnic_error]" 21 "JStr ''Gold''"]
    b1 b2 b3
  have c3: "type_errors [cnic_error] = []" by simp
  from c1 c2 c3 a2 b2 b3 show ?thesis by simp
qed

text \<open>A Home application at age 21 with a malformed CNIC reaches the bound of two entries.\<close>

theorem validate_errors_shape_witness:
  "validate_loan (\<lambda>s. None) (\<lambda>s. None)
      [(''cnic'', JStr ''1234-123456-1''), (''loanType'', JStr ''Home''), (''age'', JInt 21)]
     = Inr [cnic_error, age_error ''Home'']
   \<and> length [cnic_error, age_error ''Home''] \<le> 2
   \<and> count_list [cnic_error, age_error ''Home''] cnic_error \<le> 1
   \<and> length (type_errors [cnic_error, age_error ''Home'']) \<le> 1
   \<and> hd [cnic_error, age_error ''Home''] = cnic_error"
proof -
  let ?d = "[(''cnic'', JStr ''1234-123456-1''), (''loanType'', JStr ''Home''), (''age'', JInt 21)]"
  have bad: "\<not> re_match_from cnic_pattern True ''1234-123456-1''"
    by (simp add: cnic_pattern_def is_digit_def)
  have h1: "validate_loan (\<lambda>s. None) (\<lambda>s. None) ?d = Inr [cnic_error, age_error ''Home'']"
    using bad by (simp add: validate_loan_def dict_get_def py_int_def type_text_def)
  from validate_errors_shape[OF h1] h1 show ?thesis by simp
qed

section \<open>Properties of the EMI calculator\<close>

text \<open>
  The worked example of the specification, evaluated step by step: each rounding is
  certified by its significand and exponent. The C library is any one whose \<^verbatim>\<open>pow\<close>
  returns the correctly rounded power at the one base and exponent of this example.
\<close>

lemma emi_example:
  assumes "cpow (2270564812132625 / 2251799813685248) 12
             = correctly_rounded_pow (2270564812132625 / 2251799813685248) 12"
  shows "\<exists>sch. calculate_emi cpow (Finite 100000) (Finite 10) 12 =
     Inr \<lparr>monthlyEMI = round64 (879159 / 100), totalInterest = round64 (549906 / 100),
          totalPayable = round64 (10549906 / 100), schedule = sch, tenure = 12\<rparr>"
proof -
  define a :: rat where "a = of_int 7505999378950827 * pow2 (-53)"
  have r_a: "round64 (10 / 12) = Finite a"
    unfolding a_def by (rule round64_cert) (simp_all add: pow2_def power_divide)
  define mr :: rat where "mr = of_int 4803839602528529 * pow2 (-59)"
  have r_mr: "round64 (a / 100) = Finite mr"
    unfolding a_def mr_def by (rule round64_cert) (simp_all add: pow2_def power_divide)
  define x :: rat where "x = of_int 4541129624265250 * pow2 (-52)"
  have r_x: "round64 (1 + mr) = Finite x"
    unfolding mr_def x_def by (rule round64_cert) (simp_all add: pow2_def power_divide)
  define pw :: rat where "pw = of_int 4975185358879942 * pow2 (-52)"
  have r_pw: "round64 (x ^ 12) = Finite pw"
    unfolding x_def pw_def by (rule round64_cert) (simp_all add: pow2_def power_divide)
  define b :: rat where "b = of_int 7330077518506667 * pow2 (-43)"
  have r_b: "round64 (100000 * mr) = Finite b"
    unfolding mr_def b_def by (rule round64_cert) (simp_all add: pow2_def power_divide)
  define num :: rat where "num = of_int 8097632420051989 * pow2 (-43)"
  have r_num: "round64 (b * pw) = Finite num"
    unfolding pw_def b_def num_def by (rule round64_cert) (simp_all add: pow2_def power_divide)
  define den :: rat where "den = of_int 7545371704151136 * pow2 (-56)"
  have r_den: "round64 (pw + - 1) = Finite den"
    unfolding pw_def den_def by (rule round64_cert) (simp_all add: pow2_def power_divide)
  define emi :: rat where "emi = of_int 4833227013781972 * pow2 (-39)"
  have r_emi: "round64 (num / den) = Finite emi"
    unfolding num_def den_def emi_def by (rule round64_cert) (simp_all add: pow2_def power_divide)
  define tp :: rat where "tp = of_int 7249840520672958 * pow2 (-36)"
  have r_tp: "round64 (emi * 12) = Finite tp"
    unfolding emi_def tp_def by (rule round64_cert) (simp_all add: pow2_def power_divide)
  define ti :: rat where "ti = of_int 6046285553167328 * pow2 (-40)"
  have r_ti: "round64 (tp + - 100000) = Finite ti"
    unfolding tp_def ti_def by (rule round64_cert) (simp_all add: pow2_def power_divide)
  have h_emi: "round_half_even (emi * 100) = 879159"
    unfolding emi_def by (rule rhe_unique) (simp add: pow2_def)
  have h_tp: "round_half_even (tp * 100) = 10549906"
    unfolding tp_def by (rule rhe_unique) (simp add: pow2_def)
  have h_ti: "round_half_even (ti * 100) = 549906"
    unfolding ti_def by (rule rhe_unique) (simp add: pow2_def)
  have nz: "mr \<noteq> 0" "x \<noteq> 0" "x \<noteq> 1" "den \<noteq> 0"
    unfolding mr_def x_def den_def by (simp_all add: pow2_def)
  have xv: "x = 2270564812132625 / 2251799813685248"
    unfolding x_def by (simp add: pow2_def)
  have "cpow x 12 = round64 (x ^ 12)"
    using assms unfolding xv correctly_rounded_pow_def rat_power_int_def by simp
  then have cx: "cpow x 12 = Finite pw" using r_pw by simp
  have e: "monthly_emi_of cpow (Finite 100000) (Finite mr) 12 = Inr (Finite emi)"
    using nz r_x cx r_b r_num r_den r_emi
    by (simp add: monthly_emi_of_def math_pow_def int_to_float_def ebind_def fsub_def
        round64_12)
  show ?thesis
    using r_a r_mr e r_tp r_ti h_emi h_tp h_ti
    by (simp add: calculate_emi_def int_to_float_def ebind_def fsub_def round64_12)
qed

lemma emi_example_correctly_rounded:
  "\<exists>sch. calculate_emi correctly_rounded_pow (Finite 100000) (Finite 10) 12 =
     Inr \<lparr>monthlyEMI = round64 (879159 / 100), totalInterest = round64 (549906 / 100),
          totalPayable = round64 (10549906 / 100), schedule = sch, tenure = 12\<rparr>"
  by (rule emi_example) simp

lemma example_rounded_values:
  "round64 (879159 / 100) = Finite (2416613857909801 / 274877906944)"
  "round64 (10549906 / 100) = Finite (1812460049834967 / 17179869184)"
  "round64 (549906 / 100) = Finite (6046280411837891 / 1099511627776)"
  using round64_cert[of "879159 / 100" "-39" 4833227715819602]
    round64_cert[of "10549906 / 100" "-36" 7249840199339868]
    round64_cert[of "549906 / 100" "-40" 6046280411837891]
  by (simp_all add: pow2_def)

text \<open>
  An annual rate of \<open>1e-15\<close>: the monthly rate is positive, \<open>1 + monthly_rate\<close> rounds to
  1, the power is 1 whatever the C library, and the denominator is 0.
\<close>

lemma tiny_rate_raises:
  "calculate_emi cpow (Finite 100000) (round64 (1 / 10 ^ 15)) 12 = Inl ZeroDivisionError"
proof -
  define r :: rat where "r = of_int 5070602400912918 * pow2 (-102)"
  have r_r: "round64 (1 / 10 ^ 15) = Finite r"
    unfolding r_def by (rule round64_cert) (simp_all add: pow2_def power_divide)
  define a :: rat where "a = of_int 6760803201217224 * pow2 (-106)"
  have r_a: "round64 (r / 12) = Finite a"
    unfolding r_def a_def by (rule round64_cert) (simp_all add: pow2_def power_divide)
  define mr :: rat where "mr = of_int 8653828097558047 * pow2 (-113)"
  have r_mr: "round64 (a / 100) = Finite mr"
    unfolding a_def mr_def by (rule round64_cert) (simp_all add: pow2_def power_divide)
  define x :: rat where "x = of_int 4503599627370496 * pow2 (-52)"
  have r_x: "round64 (1 + mr) = Finite x"
    unfolding mr_def x_def by (rule round64_cert) (simp_all add: pow2_def power_divide)
  have nz: "mr \<noteq> 0" unfolding mr_def by (simp add: pow2_def)
  have x1: "x = 1" unfolding x_def by (simp add: pow2_def)
  have e: "monthly_emi_of cpow (Finite 100000) (Finite mr) 12 = Inl ZeroDivisionError"
    using nz r_x x1
    by (simp add: monthly_emi_of_def math_pow_def int_to_float_def ebind_def fsub_def
        round64_12 round64_def[of 0])
  show ?thesis
    using r_r r_a r_mr e
    by (simp add: calculate_emi_def ebind_def)
qed

lemma spec_emi_example:
  "round_half_even (spec_emi 100000 (10 / 12 / 100) 12 * 100) = 879159"
  "round_half_even (spec_emi 100000 (10 / 12 / 100) 12 * 12 * 100) = 10549906"
  "round_half_even ((spec_emi 100000 (10 / 12 / 100) 12 * 12 - 100000) * 100) = 549906"
  by (rule rhe_unique, simp add: spec_emi_def power_divide)+

text \<open>
  Claim C1, as stated, is false of the totals: for 100000 at 10 percent over 12 months the
  total payable returned is not within 0.01 of 105499.08, nor the total interest within
  0.01 of 5499.08.
\<close>

theorem emi_example_total_counterexample:
  "\<not> within_tol
        (totalPayable (projr (calculate_emi correctly_rounded_pow (Finite 100000) (Finite 10) 12)))
        (10549908 / 100) (1 / 100)
   \<and> \<not> within_tol
        (totalInterest (projr (calculate_emi correctly_rounded_pow (Finite 100000) (Finite 10) 12)))
        (549908 / 100) (1 / 100)"
proof -
  from emi_example_correctly_rounded obtain sch where
    "calculate_emi correctly_rounded_pow (Finite 100000) (Finite 10) 12 =
       Inr \<lparr>monthlyEMI = round64 (879159 / 100), totalInterest = round64 (549906 / 100),
            totalPayable = round64 (10549906 / 100), schedule = sch, tenure = 12\<rparr>" ..
  then show ?thesis
    using example_rounded_values by (simp add: within_tol_def)
qed

text \<open>
  Claim C1, amended. For principal 100000, annual rate 10 and tenure 12, \<open>calculate_emi\<close>
  returns monthlyEMI 8791.59, totalPayable 105499.06 and totalInterest 5499.06 (the floats
  nearest to these decimals), and these are the values of the standard formula in exact
  arithmetic, rounded to two decimals. The one call of the C library's \<^verbatim>\<open>pow\<close> is at the
  float nearest to \<open>1 + 10 / 1200\<close>, which is \<open>2270564812132625 / 2 ^ 51\<close>, and the exponent
  12; the library is any one that returns the correctly rounded power there.
\<close>

theorem emi_example_values:
  assumes "cpow (2270564812132625 / 2251799813685248) 12
             = correctly_rounded_pow (2270564812132625 / 2251799813685248) 12"
  shows "\<not> isl (calculate_emi cpow (Finite 100000) (Finite 10) 12)
   \<and> monthlyEMI (projr (calculate_emi cpow (Finite 100000) (Finite 10) 12))
       = round64 (879159 / 100)
   \<and> totalPayable (projr (calculate_emi cpow (Finite 100000) (Finite 10) 12))
       = round64 (10549906 / 100)
   \<and> totalInterest (projr (calculate_emi cpow (Finite 100000) (Finite 10) 12))
       = round64 (549906 / 100)
   \<and> round_half_even (spec_emi 100000 (10 / 12 / 100) 12 * 100) = 879159
   \<and> round_half_even (spec_emi 100000 (10 / 12 / 100) 12 * 12 * 100) = 10549906
   \<and> round_half_even ((spec_emi 100000 (10 / 12 / 100) 12 * 12 - 100000) * 100) = 549906"
proof -
  from emi_example[of cpow, OF assms] obtain sch where
    "calculate_emi cpow (Finite 100000) (Finite 10) 12 =
       Inr \<lparr>monthlyEMI = round64 (879159 / 100), totalInterest = round64 (549906 / 100),
            totalPayable = round64 (10549906 / 100), schedule = sch, tenure = 12\<rparr>" ..
  then show ?thesis
    using spec_emi_example by simp
qed

text \<open>The example with a correctly rounded \<^verbatim>\<open>pow\<close>.\<close>

theorem emi_example_values_witness:
  "\<not> isl (calculate_emi correctly_rounded_pow (Finite 100000) (Finite 10) 12)
   \<and> monthlyEMI (projr (calculate_emi correctly_rounded_pow (Finite 100000) (Finite 10) 12))
       = round64 (879159 / 100)
   \<and> totalPayable (projr (calculate_emi correctly_rounded_pow (Finite 100000) (Finite 10) 12))
       = round64 (10549906 / 100)
   \<and> totalInterest (projr (calculate_emi correctly_rounded_pow (Finite 100000) (Finite 10) 12))
       = round64 (549906 / 100)
   \<and> round_half_even (spec_emi 100000 (10 / 12 / 100) 12 * 100) = 879159
   \<and> round_half_even (spec_emi 100000 (10 / 12 / 100) 12 * 12 * 100) = 10549906
   \<and> round_half_even ((spec_emi 100000 (10 / 12 / 100) 12 * 12 - 100000) * 100) = 549906"
  using emi_example_values[of correctly_rounded_pow] by simp

text \<open>
  Claim C4. The claim is that for a positive principal, a rate in [0, 100] and a positive
  tenure \<open>calculate_emi\<close> returns, with no division by zero. At the annual rate \<open>1e-15\<close>,
  which is positive and at most 100, it raises \<^verbatim>\<open>ZeroDivisionError\<close>, whatever the C
  library's \<^verbatim>\<open>pow\<close>.
\<close>

theorem tiny_rate_division_by_zero:
  "calculate_emi cpow (Finite 100000) (round64 (1 / 10 ^ 15)) 12 = Inl ZeroDivisionError
   \<and> fgt (round64 (1 / 10 ^ 15)) 0 \<and> fle (round64 (1 / 10 ^ 15)) 100"
proof -
  have "round64 (1 / 10 ^ 15) = Finite (of_int 5070602400912918 * pow2 (- 102))"
    by (rule round64_cert) (simp_all add: pow2_def)
  then show ?thesis
    using tiny_rate_raises[of cpow] by (simp add: pow2_def)
qed

lemma tolerance_sum_payable:
  fixes b1 b2 b3 b4 td ad2 add tiny n ad nd d :: rat
  assumes "b1 \<le> 1 / 200 + td" "b2 \<le> ad2 / 2 + add / 4 + tiny" "b3 \<le> ad2 / 2"
    "b4 \<le> n / 200 + ad" "add \<le> ad2 / 8" "ad2 \<le> ad + nd / 200 + ad / 8"
    "0 \<le> ad" "0 \<le> nd" "tiny \<le> d"
  shows "b1 + b2 + b3 + b4 \<le> (n / 200 + 1 / 200) + (td + 3 * ad + nd + d)"
  using assms by linarith

lemma tolerance_sum_interest:
  fixes a b c x i td pd pw d :: rat
  assumes "a \<le> 1 / 200 + i" "b \<le> x / 2 + pw" "c \<le> 1 / 200 + td"
    "x \<le> 2 * td + pd + d / 200" "0 \<le> pd" "0 \<le> d" "pw \<le> d / 2"
  shows "a + b + c \<le> 1 / 100 + (i + 2 * td + pd + d)"
  using assms by linarith

text \<open>
  Claim C2, as stated, is false: for 100000 at 10 percent over 12 months the total payable
  returned is not within 0.01 of twelve times the monthly EMI returned.
\<close>

theorem emi_totals_counterexample:
  "monthlyEMI (projr (calculate_emi correctly_rounded_pow (Finite 100000) (Finite 10) 12))
     = Finite (2416613857909801 / 274877906944)
   \<and> \<not> within_tol
        (totalPayable (projr (calculate_emi correctly_rounded_pow (Finite 100000) (Finite 10) 12)))
        (2416613857909801 / 274877906944 * 12) (1 / 100)"
proof -
  from emi_example_correctly_rounded obtain sch where
    "calculate_emi correctly_rounded_pow (Finite 100000) (Finite 10) 12 =
       Inr \<lparr>monthlyEMI = round64 (879159 / 100), totalInterest = round64 (549906 / 100),
            totalPayable = round64 (10549906 / 100), schedule = sch, tenure = 12\<rparr>" ..
  then show ?thesis
    using example_rounded_values by (simp add: within_tol_def)
qed

text \<open>
  Claim C2, amended. Whenever \<open>calculate_emi\<close> returns finite values for a positive
  tenure, whatever the principal, the rate and the C library's \<^verbatim>\<open>pow\<close>, the total payable
  is within \<open>0.005 * (tenure + 1)\<close> of the monthly EMI times the tenure, and the total
  interest within 0.01 of the total payable minus the principal, each up to the rounding
  error of binary64 arithmetic, of relative size \<open>2 ^ - 52\<close>. The monthly EMI, the total
  payable and the total interest are the rounded values returned.
\<close>

theorem emi_totals_tolerance:
  assumes "calculate_emi cpow (Finite p) annual_rate n = Inr res"
    and "0 < n"
    and "monthlyEMI res = Finite E" "totalPayable res = Finite T" "totalInterest res = Finite I"
  shows "\<bar>T - E * of_int n\<bar>
           \<le> (of_int n + 1) / 200 + pow2 (- 52) * (\<bar>T\<bar> + 3 * (of_int n * \<bar>E\<bar>) + of_int n + 1)
    \<and> \<bar>I - (T - p)\<bar> \<le> 1 / 100 + pow2 (- 52) * (\<bar>I\<bar> + 2 * \<bar>T\<bar> + \<bar>p\<bar> + 1)"
proof -
  from calculate_emi_Inr[OF assms(1)] obtain monthly_rate monthly_emi nf where
    nf: "int_to_float n = Inr nf"
    and res: "res = \<lparr>monthlyEMI = py_round2 monthly_emi,
              totalInterest = py_round2 (fsub (fmul monthly_emi nf) (Finite p)),
              totalPayable = py_round2 (fmul monthly_emi nf),
              schedule = schedule_loop monthly_emi monthly_rate (Finite p) (schedule_months n),
              tenure = n\<rparr>"
    by blast
  define N where "N = rat_of_int n"
  have N: "0 < N" "1 \<le> N" using assms(2) by (simp_all add: N_def)
  define d where "d = pow2 (- 52)"
  have d52: "0 \<le> pow2 (- 52)" "pow2 (- 52) \<le> 1" "pow2 (- 52) \<le> 1 / 8"
    "pow2 (- 53) = pow2 (- 52) / 2"
    by (simp_all add: pow2_def)
  have tiny: "pow2 (- 1075) \<le> pow2 (- 52)" by (simp add: pow2_le_iff)
  have "pow2 (- 1075) \<le> pow2 (- 53)" by (simp add: pow2_le_iff)
  then have tiny2: "pow2 (- 1075) \<le> pow2 (- 52) / 2" by (simp add: pow2_def)
  note d = d52(1,2,3)[folded d_def] tiny[folded d_def]
  note tiny2 = tiny2[folded d_def]
  obtain M where nfM: "nf = Finite M" and rM: "round64 N = Finite M"
    using nf unfolding int_to_float_def N_def by (cases "round64 (rat_of_int n)") auto
  have "pow2 (- 1022) \<le> 1" using pow2_le_iff[of "- 1022" 0] by (simp add: pow2_0)
  then have "pow2 (- 1022) \<le> \<bar>N\<bar>" using N by simp
  from round64_rel_err[OF rM this] have eM: "\<bar>M - N\<bar> \<le> N * (d / 2)"
    using N by (simp add: d52(4) d_def)
  have "N * (d / 2) \<le> N * 1" using N d(2) by (intro mult_left_mono) simp_all
  then have M0: "0 \<le> M" using eM by linarith
  have MN: "M \<le> N + N * (d / 2)" using eM by linarith
  have rE: "py_round2 monthly_emi = Finite E" using assms(3) res by simp
  then obtain u where u: "monthly_emi = Finite u" using py_round2_Finite by blast
  have rT: "py_round2 (fmul monthly_emi nf) = Finite T" using assms(4) res by simp
  then obtain t where ft: "fmul monthly_emi nf = Finite t" using py_round2_Finite by blast
  then have t: "round64 (u * M) = Finite t" by (simp add: u nfM)
  have rI: "py_round2 (fsub (Finite t) (Finite p)) = Finite I" using assms(5) res ft by simp
  then obtain w where fw: "fsub (Finite t) (Finite p) = Finite w" using py_round2_Finite by blast
  then have w: "round64 (t - p) = Finite w" using fsub_Finite by fastforce
  have eE: "\<bar>E - u\<bar> \<le> 1 / 200 + \<bar>E\<bar> * d" using py_round2_err rE u by (simp add: d_def)
  have eT: "\<bar>T - t\<bar> \<le> 1 / 200 + \<bar>T\<bar> * d" using py_round2_err rT ft by (simp add: d_def)
  have eI: "\<bar>I - w\<bar> \<le> 1 / 200 + \<bar>I\<bar> * d" using py_round2_err rI fw by (simp add: d_def)
  have et: "\<bar>t - u * M\<bar> \<le> \<bar>u * M\<bar> * (d / 2) + pow2 (- 1075)"
    using round64_abs_err[OF t] by (simp add: d52(4) d_def)
  have ew: "\<bar>w - (t - p)\<bar> \<le> \<bar>t - p\<bar> * d / 2 + pow2 (- 1075)"
    using round64_abs_err[OF w] by (simp add: d52(4) d_def)
  define a where "a = N * \<bar>E\<bar>"
  define A where "A = \<bar>u\<bar> * N"
  have a0: "0 \<le> a" using N by (simp add: a_def)
  have A0: "0 \<le> A" using N by (simp add: A_def)
  have ad0: "0 \<le> a * d" using a0 d(1) by simp
  have Ad0: "0 \<le> A * d" using A0 d(1) by simp
  have Nd0: "0 \<le> N * d" using N d(1) by simp
  have uE: "\<bar>u\<bar> \<le> \<bar>E\<bar> + 1 / 200 + \<bar>E\<bar> * d" using eE by linarith
  have Aa: "A \<le> a + N / 200 + a * d"
  proof -
    have "A \<le> (\<bar>E\<bar> + 1 / 200 + \<bar>E\<bar> * d) * N"
      unfolding A_def using uE N by (intro mult_right_mono) simp_all
    also have "\<dots> = a + N / 200 + a * d" by (simp add: a_def algebra_simps)
    finally show ?thesis .
  qed
  have add8: "a * d * d \<le> a * d / 8"
    using mult_left_mono[OF d(3) ad0] by simp
  have f6: "A * d \<le> a * d + N * d / 200 + a * d / 8"
  proof -
    have "A * d \<le> (a + N / 200 + a * d) * d"
      using Aa d(1) by (intro mult_right_mono) simp_all
    also have "\<dots> = a * d + N * d / 200 + a * d * d" by (simp add: algebra_simps)
    finally show ?thesis using add8 by linarith
  qed
  have f5: "A * d * d \<le> A * d / 8"
    using mult_left_mono[OF d(3) Ad0] by simp
  have uM: "\<bar>u * M\<bar> \<le> A + A * (d / 2)"
  proof -
    have "\<bar>u * M\<bar> = \<bar>u\<bar> * M" using M0 by (simp add: abs_mult)
    also have "\<dots> \<le> \<bar>u\<bar> * (N + N * (d / 2))" using MN by (intro mult_left_mono) simp_all
    also have "\<dots> = A + A * (d / 2)" by (simp add: A_def algebra_simps)
    finally show ?thesis .
  qed
  have f2: "\<bar>t - u * M\<bar> \<le> A * d / 2 + A * d * d / 4 + pow2 (- 1075)"
  proof -
    have "\<bar>u * M\<bar> * (d / 2) \<le> (A + A * (d / 2)) * (d / 2)"
      using uM d(1) by (intro mult_right_mono) simp_all
    also have "\<dots> = A * d / 2 + A * d * d / 4" by (simp add: algebra_simps)
    finally show ?thesis using et by linarith
  qed
  have f3: "\<bar>u * M - u * N\<bar> \<le> A * d / 2"
  proof -
    have "\<bar>u * M - u * N\<bar> = \<bar>u\<bar> * \<bar>M - N\<bar>"
      by (simp add: abs_mult right_diff_distrib[symmetric])
    also have "\<dots> \<le> \<bar>u\<bar> * (N * (d / 2))" using eM by (intro mult_left_mono) simp_all
    also have "\<dots> = A * d / 2" by (simp add: A_def)
    finally show ?thesis .
  qed
  have f4: "\<bar>E * N - u * N\<bar> \<le> N / 200 + a * d"
  proof -
    have "\<bar>E * N - u * N\<bar> = \<bar>E - u\<bar> * N"
      using N by (simp add: abs_mult left_diff_distrib[symmetric])
    also have "\<dots> \<le> (1 / 200 + \<bar>E\<bar> * d) * N"
      using eE N by (intro mult_right_mono) simp_all
    also have "\<dots> = N / 200 + a * d" by (simp add: a_def algebra_simps)
    finally show ?thesis .
  qed
  have "\<bar>T - E * N\<bar> \<le> \<bar>T - t\<bar> + \<bar>t - u * M\<bar> + \<bar>u * M - u * N\<bar> + \<bar>E * N - u * N\<bar>"
    by linarith
  also have "\<dots> \<le> (N / 200 + 1 / 200) + (\<bar>T\<bar> * d + 3 * (a * d) + N * d + d)"
    by (rule tolerance_sum_payable[OF eT f2 f3 f4 f5 f6 ad0 Nd0 d(4)])
  also have "\<dots> = (N + 1) / 200 + d * (\<bar>T\<bar> + 3 * a + N + 1)"
    by (simp add: algebra_simps add_divide_distrib)
  finally have c1: "\<bar>T - E * of_int n\<bar>
           \<le> (of_int n + 1) / 200 + pow2 (- 52) * (\<bar>T\<bar> + 3 * (of_int n * \<bar>E\<bar>) + of_int n + 1)"
    by (simp add: N_def a_def d_def)
  have Td: "\<bar>T\<bar> * d \<le> \<bar>T\<bar>" using d(2) by (simp add: mult_left_le)
  have tp: "\<bar>t - p\<bar> \<le> 2 * \<bar>T\<bar> + \<bar>p\<bar> + 1 / 200"
    using eT Td by linarith
  have tpd: "\<bar>t - p\<bar> * d \<le> (2 * \<bar>T\<bar> + \<bar>p\<bar> + 1 / 200) * d"
    using tp d(1) by (intro mult_right_mono) simp_all
  have tpd': "\<bar>t - p\<bar> * d \<le> 2 * (\<bar>T\<bar> * d) + \<bar>p\<bar> * d + d / 200"
    using tpd by (simp add: algebra_simps)
  have pd: "0 \<le> \<bar>p\<bar> * d" using d(1) by simp
  have "\<bar>I - (T - p)\<bar> \<le> \<bar>I - w\<bar> + \<bar>w - (t - p)\<bar> + \<bar>T - t\<bar>" by linarith
  also have "\<dots> \<le> 1 / 100 + (\<bar>I\<bar> * d + 2 * (\<bar>T\<bar> * d) + \<bar>p\<bar> * d + d)"
    using tolerance_sum_interest[OF eI ew eT tpd' pd d(1) tiny2] by simp
  also have "\<dots> = 1 / 100 + d * (\<bar>I\<bar> + 2 * \<bar>T\<bar> + \<bar>p\<bar> + 1)"
    by (simp add: algebra_simps)
  finally have c2: "\<bar>I - (T - p)\<bar> \<le> 1 / 100 + pow2 (- 52) * (\<bar>I\<bar> + 2 * \<bar>T\<bar> + \<bar>p\<bar> + 1)"
    by (simp add: d_def)
  from c1 c2 show ?thesis by simp
qed

text \<open>The bounds at the worked example, where the first difference is 0.02.\<close>

theorem emi_totals_tolerance_witness:
  "\<not> isl (calculate_emi correctly_rounded_pow (Finite 100000) (Finite 10) 12)
   \<and> \<bar>1812460049834967 / 17179869184 - 2416613857909801 / 274877906944 * 12\<bar>
       \<le> ((12::rat) + 1) / 200
          + pow2 (- 52) * (\<bar>1812460049834967 / 17179869184\<bar>
              + 3 * (12 * \<bar>2416613857909801 / 274877906944\<bar>) + 12 + 1)
   \<and> \<bar>6046280411837891 / 1099511627776 - (1812460049834967 / 17179869184 - 100000)\<bar>
       \<le> (1::rat) / 100
          + pow2 (- 52) * (\<bar>6046280411837891 / 1099511627776\<bar>
              + 2 * \<bar>1812460049834967 / 17179869184\<bar> + \<bar>100000\<bar> + 1)"
proof -
  from emi_example_correctly_rounded obtain sch where
    e: "calculate_emi correctly_rounded_pow (Finite 100000) (Finite 10) 12 =
       Inr \<lparr>monthlyEMI = round64 (879159 / 100), totalInterest = round64 (549906 / 100),
            totalPayable = round64 (10549906 / 100), schedule = sch, tenure = 12\<rparr>" ..
  have n: "(0::int) < 12" by simp
  from emi_totals_tolerance[OF e n, of "2416613857909801 / 274877906944"
      "1812460049834967 / 17179869184" "6046280411837891 / 1099511627776"]
    example_rounded_values e
  show ?thesis by simp
qed

text \<open>
  Claim C9, as stated, is false: a request whose loan amount is 0 and whose interest rate
  is \<^verbatim>\<open>null\<close> is answered with status 400 and the text of the \<^verbatim>\<open>TypeError\<close> that
  \<^verbatim>\<open>float(None)\<close> raises, not with the amount error: the three fields are coerced before
  the first check.
\<close>

theorem calculate_coercion_counterexample:
  "calculate correctly_rounded_pow (\<lambda>s. None) (\<lambda>s. None)
     (JObj [(''loanAmount'', JInt 0), (''interestRate'', JNull), (''loanTenure'', JInt 12)])
   = (400, ErrorExc TypeError)
   \<and> py_float (\<lambda>s. None) (JInt 0) = Inr (Finite 0) \<and> fle (Finite 0) 0"
  by (simp add: calculate_def calculate_checked_def request_dict_def dict_get_def py_float_def
      py_int_def)

text \<open>
  Claim C9, amended. The handler first coerces the three fields, in the order loan amount,
  interest rate, tenure (\<open>coerce_request\<close>); for every request: when the body is not an
  object or a coercion raises, the response is 400 with the text of that exception;
  otherwise a loan amount that is at most 0 gives status 400 with the amount error;
  otherwise a rate below 0 or above 100 gives 400 with the rate error; otherwise a tenure
  that is at most 0 gives 400 with the tenure error; otherwise the response is 200 with
  the full result when \<open>calculate_emi\<close> returns one, and 400 with the text of the exception
  when it raises. The status is 200 or 400, and it is 200 exactly when the body is a full
  result.
\<close>

theorem calculate_responses:
  "(case coerce_request str_int str_float body of
      Inl e \<Rightarrow> calculate cpow str_int str_float body = (400, ErrorExc e)
    | Inr (p, r, n) \<Rightarrow>
        calculate cpow str_int str_float body =
          (if fle p 0 then (400, ErrorText amount_error)
           else if flt r 0 \<or> fgt r 100 then (400, ErrorText rate_error)
           else if n \<le> 0 then (400, ErrorText tenure_error)
           else case calculate_emi cpow p r n of
                  Inr res \<Rightarrow> (200, Result res)
                | Inl e \<Rightarrow> (400, ErrorExc e)))
   \<and> (fst (calculate cpow str_int str_float body) = 200 \<longleftrightarrow>
         (\<exists>res. snd (calculate cpow str_int str_float body) = Result res))
   \<and> (fst (calculate cpow str_int str_float body) = 200 \<or>
       fst (calculate cpow str_int str_float body) = 400)"
  by (auto simp: calculate_def calculate_checked_def coerce_request_def ebind_def
      split: sum.splits)

text \<open>
  The worked example is answered 200 with its result; a body that is not an object and a
  field that does not coerce are answered 400 with the exception; and the three requests
  the specification names (amount 0, rate 150, tenure 0) are answered 400 with their
  error.
\<close>

theorem calculate_responses_witness:
  "(\<exists>sch. calculate correctly_rounded_pow (\<lambda>s. None) (\<lambda>s. None)
     (JObj [(''loanAmount'', JInt 100000), (''interestRate'', JInt 10),
            (''loanTenure'', JInt 12)])
     = (200, Result \<lparr>monthlyEMI = round64 (879159 / 100),
                      totalInterest = round64 (549906 / 100),
                      totalPayable = round64 (10549906 / 100), schedule = sch, tenure = 12\<rparr>))
   \<and> calculate correctly_rounded_pow (\<lambda>s. None) (\<lambda>s. None) JNull
     = (400, ErrorExc AttributeError)
   \<and> calculate correctly_rounded_pow (\<lambda>s. None) (\<lambda>s. None)
     (JObj [(''loanAmount'', JInt 100000), (''interestRate'', JInt 10),
            (''loanTenure'', JArr [])])
     = (400, ErrorExc TypeError)
   \<and> calculate correctly_rounded_pow (\<lambda>s. None) (\<lambda>s. None)
     (JObj [(''loanAmount'', JInt 0), (''interestRate'', JFloat (Finite 10)),
            (''loanTenure'', JInt 12)])
     = (400, ErrorText amount_error)
   \<and> calculate correctly_rounded_pow (\<lambda>s. None) (\<lambda>s. None)
     (JObj [(''loanAmount'', JFloat (Finite 100000)), (''interestRate'', JFloat (Finite 150)),
            (''loanTenure'', JInt 12)])
     = (400, ErrorText rate_error)
   \<and> calculate correctly_rounded_pow (\<lambda>s. None) (\<lambda>s. None)
     (JObj [(''loanAmount'', JFloat (Finite 100000)), (''interestRate'', JFloat (Finite 10)),
            (''loanTenure'', JInt 0)])
     = (400, ErrorText tenure_error)"
proof -
  let ?d0 = "[(''loanAmount'', JInt 100000), (''interestRate'', JInt 10),
            (''loanTenure'', JInt 12)]"
  let ?dc = "[(''loanAmount'', JInt 100000), (''interestRate'', JInt 10),
            (''loanTenure'', JArr [])]"
  let ?d1 = "[(''loanAmount'', JInt 0), (''interestRate'', JFloat (Finite 10)),
            (''loanTenure'', JInt 12)]"
  let ?d2 = "[(''loanAmount'', JFloat (Finite 100000)), (''interestRate'', JFloat (Finite 150)),
            (''loanTenure'', JInt 12)]"
  let ?d3 = "[(''loanAmount'', JFloat (Finite 100000)), (''interestRate'', JFloat (Finite 10)),
            (''loanTenure'', JInt 0)]"
  note defs = coerce_request_def request_dict_def dict_get_def py_float_def py_int_def
  have i: "int_to_float 100000 = Inr (Finite 100000)" "int_to_float 10 = Inr (Finite 10)"
    by (simp_all add: int_to_float_exact)
  from emi_example_correctly_rounded obtain sch where
    e: "calculate_emi correctly_rounded_pow (Finite 100000) (Finite 10) 12 =
       Inr \<lparr>monthlyEMI = round64 (879159 / 100), totalInterest = round64 (549906 / 100),
            totalPayable = round64 (10549906 / 100), schedule = sch, tenure = 12\<rparr>" ..
  have 0: "calculate correctly_rounded_pow (\<lambda>s. None) (\<lambda>s. None) (JObj ?d0)
     = (200, Result \<lparr>monthlyEMI = round64 (879159 / 100),
                      totalInterest = round64 (549906 / 100),
                      totalPayable = round64 (10549906 / 100), schedule = sch, tenure = 12\<rparr>)"
    using calculate_responses[where cpow = correctly_rounded_pow and str_int = "\<lambda>s. None"
        and str_float = "\<lambda>s. None" and body = "JObj ?d0"] e
    by (simp add: defs i)
  have a: "calculate correctly_rounded_pow (\<lambda>s. None) (\<lambda>s. None) JNull
     = (400, ErrorExc AttributeError)"
    using calculate_responses[where cpow = correctly_rounded_pow and str_int = "\<lambda>s. None"
        and str_float = "\<lambda>s. None" and body = JNull]
    by (simp add: defs)
  have c: "calculate correctly_rounded_pow (\<lambda>s. None) (\<lambda>s. None) (JObj ?dc)
     = (400, ErrorExc TypeError)"
    using calculate_responses[where cpow = correctly_rounded_pow and str_int = "\<lambda>s. None"
        and str_float = "\<lambda>s. None" and body = "JObj ?dc"]
    by (simp add: defs i)
  have 1: "calculate correctly_rounded_pow (\<lambda>s. None) (\<lambda>s. None) (JObj ?d1)
     = (400, ErrorText amount_error)"
    using calculate_responses[where cpow = correctly_rounded_pow and str_int = "\<lambda>s. None"
        and str_float = "\<lambda>s. None" and body = "JObj ?d1"]
    by (simp add: defs)
  have 2: "calculate correctly_rounded_pow (\<lambda>s. None) (\<lambda>s. None) (JObj ?d2)
     = (400, ErrorText rate_error)"
    using calculate_responses[where cpow = correctly_rounded_pow and str_int = "\<lambda>s. None"
        and str_float = "\<lambda>s. None" and body = "JObj ?d2"]
    by (simp add: defs)
  have 3: "calculate correctly_rounded_pow (\<lambda>s. None) (\<lambda>s. None) (JObj ?d3)
     = (400, ErrorText tenure_error)"
    using calculate_responses[where cpow = correctly_rounded_pow and str_int = "\<lambda>s. None"
        and str_float = "\<lambda>s. None" and body = "JObj ?d3"]
    by (simp add: defs)
  from 0 a c 1 2 3 show ?thesis by blast
qed

section \<open>Order and monotonicity of the binary64 rounding\<close>

lemma floor_log2_mono:
  assumes "0 < x" "x \<le> y"
  shows "floor_log2 x \<le> floor_log2 y"
proof -
  have y: "0 < y" using assms by linarith
  have "pow2 (floor_log2 x) \<le> x" using floor_log2_bounds(1)[OF assms(1)] .
  also have "\<dots> \<le> y" by fact
  also have "\<dots> < pow2 (floor_log2 y + 1)" using floor_log2_bounds(2)[OF y] .
  finally have "floor_log2 x < floor_log2 y + 1" by (simp add: pow2_less_iff)
  then show ?thesis by simp
qed

lemma r64_exp_ge: "- 1074 \<le> r64_exp x"
  by (simp add: r64_exp_def)

lemma r64_exp_upper:
  assumes "x \<noteq> 0"
  shows "\<bar>x\<bar> < pow2 (r64_exp x + 53)"
proof -
  have x: "0 < \<bar>x\<bar>" using assms by simp
  have "floor_log2 \<bar>x\<bar> + 1 \<le> r64_exp x + 53" by (simp add: r64_exp_def)
  then have "pow2 (floor_log2 \<bar>x\<bar> + 1) \<le> pow2 (r64_exp x + 53)" by (rule pow2_mono)
  then show ?thesis using floor_log2_bounds(2)[OF x] by linarith
qed

lemma r64_exp_lower:
  assumes "x \<noteq> 0"
  shows "pow2 (r64_exp x + 52) \<le> \<bar>x\<bar> \<or> r64_exp x = - 1074"
proof (cases "r64_exp x = - 1074")
  case False
  then have "r64_exp x = floor_log2 \<bar>x\<bar> - 52" by (simp add: r64_exp_def max_def split: if_splits)
  then have "pow2 (r64_exp x + 52) = pow2 (floor_log2 \<bar>x\<bar>)" by simp
  then show ?thesis using floor_log2_bounds(1)[of "\<bar>x\<bar>"] assms by simp
qed simp

text \<open>The significand chosen by round64.\<close>

lemma r64_sig_bounds:
  assumes "x \<noteq> 0"
  shows "0 \<le> round_half_even (\<bar>x\<bar> / pow2 (r64_exp x))"
    and "round_half_even (\<bar>x\<bar> / pow2 (r64_exp x)) \<le> 2 ^ 53"
    and "r64_exp x \<noteq> - 1074 \<Longrightarrow> 2 ^ 52 \<le> round_half_even (\<bar>x\<bar> / pow2 (r64_exp x))"
proof -
  let ?e = "r64_exp x"
  let ?q = "\<bar>x\<bar> / pow2 ?e"
  show "0 \<le> round_half_even ?q" by (rule rhe_nonneg) simp
  have "\<bar>x\<bar> < pow2 ?e * pow2 53" using r64_exp_upper[OF assms] by (simp add: pow2_add)
  then have "?q < pow2 53" by (simp add: pos_divide_less_eq mult.commute)
  then have "?q \<le> rat_of_int (2 ^ 53)" by (simp add: pow2_def)
  then show "round_half_even ?q \<le> 2 ^ 53" by (rule rhe_le)
  assume "?e \<noteq> - 1074"
  then have "pow2 (?e + 52) \<le> \<bar>x\<bar>" using r64_exp_lower[OF assms] by simp
  then have "pow2 ?e * pow2 52 \<le> \<bar>x\<bar>" by (simp add: pow2_add)
  then have "pow2 52 \<le> ?q" by (simp add: pos_le_divide_eq mult.commute)
  then have "rat_of_int (2 ^ 52) \<le> ?q" by (simp add: pow2_def)
  then show "2 ^ 52 \<le> round_half_even ?q" by (rule rhe_ge)
qed

lemma r64_mag_upper:
  assumes "x \<noteq> 0"
  shows "r64_mag x \<le> pow2 (r64_exp x + 53)"
proof -
  have "rat_of_int (round_half_even (\<bar>x\<bar> / pow2 (r64_exp x))) \<le> rat_of_int (2 ^ 53)"
    using r64_sig_bounds(2)[OF assms] by (simp only: of_int_le_iff)
  then have "rat_of_int (round_half_even (\<bar>x\<bar> / pow2 (r64_exp x))) \<le> pow2 53"
    by (simp add: pow2_def)
  then have "r64_mag x \<le> pow2 53 * pow2 (r64_exp x)"
    unfolding r64_mag_def by (intro mult_right_mono) simp_all
  then show ?thesis by (simp add: pow2_add mult.commute)
qed

lemma r64_mag_lower:
  assumes "x \<noteq> 0" "r64_exp x \<noteq> - 1074"
  shows "pow2 (r64_exp x + 52) \<le> r64_mag x"
proof -
  have "rat_of_int (2 ^ 52) \<le> rat_of_int (round_half_even (\<bar>x\<bar> / pow2 (r64_exp x)))"
    using r64_sig_bounds(3)[OF assms] by (simp only: of_int_le_iff)
  then have "pow2 52 \<le> rat_of_int (round_half_even (\<bar>x\<bar> / pow2 (r64_exp x)))"
    by (simp add: pow2_def)
  then have "pow2 52 * pow2 (r64_exp x) \<le> r64_mag x"
    unfolding r64_mag_def by (intro mult_right_mono) simp_all
  then show ?thesis by (simp add: pow2_add mult.commute)
qed

lemma r64_exp_mono:
  assumes "0 < x" "x \<le> y"
  shows "r64_exp x \<le> r64_exp y"
proof -
  have "floor_log2 \<bar>x\<bar> \<le> floor_log2 \<bar>y\<bar>"
    using floor_log2_mono[of x y] assms by simp
  then show ?thesis by (simp add: r64_exp_def)
qed

lemma r64_mag_mono:
  assumes "0 < x" "x \<le> y"
  shows "r64_mag x \<le> r64_mag y"
proof (cases "r64_exp x = r64_exp y")
  case True
  have "\<bar>x\<bar> / pow2 (r64_exp y) \<le> \<bar>y\<bar> / pow2 (r64_exp y)"
    using assms by (simp add: divide_right_mono)
  then have "round_half_even (\<bar>x\<bar> / pow2 (r64_exp y)) \<le> round_half_even (\<bar>y\<bar> / pow2 (r64_exp y))"
    by (rule rhe_mono)
  then have "rat_of_int (round_half_even (\<bar>x\<bar> / pow2 (r64_exp y)))
      \<le> rat_of_int (round_half_even (\<bar>y\<bar> / pow2 (r64_exp y)))" by (simp only: of_int_le_iff)
  then show ?thesis
    unfolding r64_mag_def True by (intro mult_right_mono) simp_all
next
  case False
  then have lt: "r64_exp x < r64_exp y" using r64_exp_mono[OF assms] by simp
  have x0: "x \<noteq> 0" and y0: "y \<noteq> 0" using assms by auto
  have ny: "r64_exp y \<noteq> - 1074" using lt r64_exp_ge[of x] by linarith
  have "r64_mag x \<le> pow2 (r64_exp x + 53)" by (rule r64_mag_upper[OF x0])
  also have "\<dots> \<le> pow2 (r64_exp y + 52)" using lt by (intro pow2_mono) simp
  also have "\<dots> \<le> r64_mag y" by (rule r64_mag_lower[OF y0 ny])
  finally show ?thesis .
qed

lemma float_le_refl: "f \<noteq> NaN \<Longrightarrow> float_le f f"
  by (cases f) simp_all

lemma float_le_trans: "float_le a b \<Longrightarrow> float_le b c \<Longrightarrow> float_le a c"
  by (cases a; cases b; cases c) simp_all

lemma round64_not_NaN [simp]: "round64 x \<noteq> NaN"
  by (simp add: round64_unfold)

lemma round64_0 [simp]: "round64 0 = Finite 0"
  by (simp add: round64_def)

lemma round64_nonneg:
  assumes "0 \<le> x"
  shows "float_le (Finite 0) (round64 x)"
  using assms r64_mag_nonneg[of x] by (simp add: round64_unfold sgn_if)

lemma round64_nonpos:
  assumes "x \<le> 0"
  shows "float_le (round64 x) (Finite 0)"
  using assms r64_mag_nonneg[of x] by (simp add: round64_unfold sgn_if)

lemma round64_mono:
  assumes "x \<le> y"
  shows "float_le (round64 x) (round64 y)"
proof -
  consider "x \<le> 0" "0 \<le> y" | "0 < x" | "y < 0" using assms by linarith
  then show ?thesis
  proof cases
    case 1
    then show ?thesis
      using float_le_trans[OF round64_nonpos round64_nonneg] by blast
  next
    case 2
    then have y: "0 < y" using assms by linarith
    have "r64_mag x \<le> r64_mag y" by (rule r64_mag_mono[OF 2 assms])
    then show ?thesis using 2 y by (simp add: round64_unfold)
  next
    case 3
    then have x: "x < 0" using assms by linarith
    have "r64_mag (- y) \<le> r64_mag (- x)" using 3 assms by (intro r64_mag_mono) simp_all
    then show ?thesis using 3 x by (simp add: round64_unfold)
  qed
qed

lemma round64_idem_pos:
  assumes "0 < x" "round64 x = Finite a"
  shows "round64 a = Finite a"
proof -
  define e where "e = r64_exp x"
  define m where "m = round_half_even (\<bar>x\<bar> / pow2 e)"
  have x0: "x \<noteq> 0" using assms(1) by simp
  have a: "a = of_int m * pow2 e" and small: "of_int m * pow2 e < pow2 1024"
    using assms by (auto simp: round64_unfold r64_mag_def e_def m_def split: if_splits)
  have m: "0 \<le> m" "m \<le> 2 ^ 53" "e \<noteq> - 1074 \<Longrightarrow> 2 ^ 52 \<le> m"
    using r64_sig_bounds[OF x0] by (simp_all add: e_def m_def)
  have e: "- 1074 \<le> e" by (simp add: e_def r64_exp_ge)
  show ?thesis
  proof (cases "m = 0")
    case True
    then show ?thesis by (simp add: a)
  next
    case False
    then have mpos: "0 < m" using m(1) by simp
    have e971: "e \<noteq> - 1074 \<Longrightarrow> e \<le> 971"
    proof -
      assume ne: "e \<noteq> - 1074"
      have "rat_of_int (2 ^ 52) \<le> rat_of_int m" using m(3)[OF ne] by (simp only: of_int_le_iff)
      then have "pow2 52 \<le> rat_of_int m" by (simp add: pow2_def)
      then have "pow2 52 * pow2 e \<le> rat_of_int m * pow2 e"
        by (intro mult_right_mono) simp_all
      then have "pow2 52 * pow2 e < pow2 1024" using small by linarith
      then have "pow2 (52 + e) < pow2 1024" by (simp only: pow2_add)
      then show "e \<le> 971" by (simp add: pow2_less_iff)
    qed
    show ?thesis
    proof (cases "m = 2 ^ 53")
      case True
      have v: "rat_of_int m * pow2 e = rat_of_int (2 ^ 52) * pow2 (e + 1)"
        unfolding True by (simp add: pow2_add pow2_1)
      have "pow2 53 * pow2 e < pow2 1024" using small unfolding True by (simp add: pow2_def[of 53])
      then have "pow2 (53 + e) < pow2 1024" by (simp add: pow2_add)
      then have "e + 1 \<le> 971" by (simp add: pow2_less_iff)
      then have "round64 (rat_of_int (2 ^ 52) * pow2 (e + 1)) = Finite (rat_of_int (2 ^ 52) * pow2 (e + 1))"
        using e by (intro round64_exact) simp_all
      then show ?thesis by (simp only: a v)
    next
      case False
      then have lt: "m < 2 ^ 53" using m(2) by simp
      have "2 ^ 52 \<le> m \<or> e = - 1074" using m(3) by blast
      moreover have "e \<le> 971" using e971 by (cases "e = - 1074") simp_all
      ultimately have "round64 (rat_of_int m * pow2 e) = Finite (rat_of_int m * pow2 e)"
        using mpos e lt by (intro round64_exact) simp_all
      then show ?thesis by (simp only: a)
    qed
  qed
qed

lemma round64_idem:
  assumes "round64 x = Finite a"
  shows "round64 a = Finite a"
proof -
  consider "x = 0" | "0 < x" | "x < 0" by linarith
  then show ?thesis
  proof cases
    case 1
    then show ?thesis using assms by simp
  next
    case 2
    then show ?thesis using assms by (rule round64_idem_pos)
  next
    case 3
    then have p: "0 < - x" by simp
    have "round64 (- x) = Finite (- a)" using assms by (simp add: round64_neg)
    from round64_idem_pos[OF p this] have "round64 (- a) = Finite (- a)" .
    then have "fneg (round64 a) = Finite (- a)" by (simp add: round64_neg)
    then show ?thesis by (cases "round64 a") simp_all
  qed
qed

lemma py_round2_mono:
  assumes "x \<le> y"
  shows "float_le (py_round2 (Finite x)) (py_round2 (Finite y))"
proof -
  have "round_half_even (x * 100) \<le> round_half_even (y * 100)"
    using assms by (intro rhe_mono) simp
  then have "rat_of_int (round_half_even (x * 100)) \<le> rat_of_int (round_half_even (y * 100))"
    by (simp only: of_int_le_iff)
  then have "rat_of_int (round_half_even (x * 100)) / 100 \<le> rat_of_int (round_half_even (y * 100)) / 100"
    by (simp add: divide_right_mono)
  then show ?thesis by (simp add: round64_mono)
qed

lemma py_round2_nonneg:
  assumes "0 \<le> x"
  shows "float_le (Finite 0) (py_round2 (Finite x))"
  using py_round2_mono[OF assms] rhe_of_int[of 0] by simp

lemma round64_bounded:
  assumes "\<bar>x\<bar> \<le> pow2 1023"
  shows "\<exists>a. round64 x = Finite a \<and> \<bar>a\<bar> \<le> pow2 1023"
proof -
  have t: "round64 (rat_of_int (2 ^ 52) * pow2 971) = Finite (rat_of_int (2 ^ 52) * pow2 971)"
    by (intro round64_exact) simp_all
  have v: "rat_of_int (2 ^ 52) * pow2 971 = pow2 1023"
    using pow2_add[of 52 971] by (simp add: pow2_def[of 52])
  have top: "round64 (pow2 1023) = Finite (pow2 1023)" using t by (simp only: v)
  have bot: "round64 (- pow2 1023) = Finite (- pow2 1023)"
    using top by (simp add: round64_neg)
  have "x \<le> pow2 1023" "- pow2 1023 \<le> x" using assms by linarith+
  then have "float_le (round64 x) (Finite (pow2 1023))" "float_le (Finite (- pow2 1023)) (round64 x)"
    using round64_mono[of x "pow2 1023"] round64_mono[of "- pow2 1023" x] top bot by simp_all
  then show ?thesis by (cases "round64 x") simp_all
qed

lemma round64_cert_tie:
  assumes "0 < x" "- 1074 \<le> e" "x < pow2 (e + 53)" "pow2 (e + 52) \<le> x \<or> e = - 1074"
    and "\<bar>x - of_int m * pow2 e\<bar> = pow2 e / 2" "even m" "of_int m * pow2 e < pow2 1024"
  shows "round64 x = Finite (of_int m * pow2 e)"
proof -
  have ax: "\<bar>x\<bar> = x" using assms(1) by simp
  have e: "r64_exp x = e"
    using assms by (intro r64_exp_eq) (simp_all add: ax)
  have "\<bar>x / pow2 e - of_int m\<bar> * pow2 e = \<bar>x - of_int m * pow2 e\<bar>"
  proof -
    have "\<bar>x / pow2 e - of_int m\<bar> * \<bar>pow2 e\<bar> = \<bar>(x / pow2 e - of_int m) * pow2 e\<bar>"
      by (simp only: abs_mult)
    then show ?thesis by (simp add: algebra_simps)
  qed
  then have "\<bar>x / pow2 e - of_int m\<bar> * pow2 e = 1 / 2 * pow2 e"
    using assms(5) by simp
  then have "\<bar>x / pow2 e - of_int m\<bar> = 1 / 2"
    using pow2_neq0[of e] by (simp only: mult_cancel_right) simp
  then have m: "round_half_even (x / pow2 e) = m" using assms(6) by (rule rhe_tie)
  have mag: "r64_mag x = of_int m * pow2 e"
    by (simp add: r64_mag_def e ax m)
  show ?thesis
    using assms(1,7) by (simp add: round64_unfold mag not_le)
qed


section \<open>Properties of the payment schedule\<close>

lemma length_schedule_loop [simp]:
  "length (schedule_loop monthly_emi monthly_rate rb ms) = length ms"
  by (induction ms arbitrary: rb) (simp_all add: Let_def)

lemma schedule_months_eq: "schedule_months n = [1 .. min n 12]"
proof -
  have "min (n + 1) 13 - 1 = min n 12" by simp
  then show ?thesis by (simp only: schedule_months_def)
qed

text \<open>
  Every row of the schedule is computed from some remaining balance \<open>rb0\<close>: the interest
  on it, the part of the instalment that repays principal, and the balance left.
\<close>

lemma schedule_loop_row:
  assumes "r \<in> set (schedule_loop monthly_emi monthly_rate rb ms)"
  shows "\<exists>rb0. row_emi r = py_round2 monthly_emi
     \<and> row_interest r = py_round2 (fmul rb0 monthly_rate)
     \<and> row_principal r = py_round2 (fsub monthly_emi (fmul rb0 monthly_rate))
     \<and> row_balance r =
         py_round2 (py_max0 (fsub rb0 (fsub monthly_emi (fmul rb0 monthly_rate))))"
  using assms
proof (induction ms arbitrary: rb)
  case Nil
  then show ?case by simp
next
  case (Cons m ms)
  then show ?case by (auto simp: Let_def)
qed

lemma py_max0_Finite: "py_max0 (Finite b) = Finite (max 0 b)"
  by (simp add: py_max0_def max_def)

lemma py_max0_cases: "py_max0 x = PosInf \<or> (\<exists>a. 0 \<le> a \<and> py_max0 x = Finite a)"
  by (cases x) (auto simp: py_max0_def)

lemma balance_nonneg: "float_le (Finite 0) (py_round2 (py_max0 x))"
  using py_max0_cases[of x] py_round2_nonneg by auto

lemma balance_dead:
  assumes "rb = NegInf \<or> rb = NaN"
  shows "py_round2 (py_max0 rb) = Finite 0"
  using assms rhe_of_int[of 0] by (auto simp: py_max0_def)

lemma balance_mono:
  assumes "b' \<le> b"
  shows "float_le (py_round2 (py_max0 (Finite b'))) (py_round2 (py_max0 (Finite b)))"
  unfolding py_max0_Finite using assms by (intro py_round2_mono) simp

text \<open>
  The balance column. While the instalment covers the month's interest the principal
  payment is not negative, so the remaining balance, a float, does not grow; once the
  balance has left the finite values (a negative infinity or NaN) the column shows 0.
\<close>

lemma fsub_of_le:
  assumes "float_le i e"
  shows "fsub e i = NaN \<or> fsub e i = PosInf \<or> (\<exists>q. 0 \<le> q \<and> fsub e i = Finite q)"
proof (cases e)
  case (Finite e')
  show ?thesis
  proof (cases i)
    case (Finite i')
    then have "i' \<le> e'" using assms \<open>e = Finite e'\<close> by simp
    then have "float_le (Finite 0) (round64 (e' - i'))" by (intro round64_nonneg) simp
    then show ?thesis using Finite \<open>e = Finite e'\<close>
      by (cases "round64 (e' - i')") (simp_all add: fsub_def)
  qed (use assms Finite in \<open>simp_all add: fsub_def\<close>)
next
  case PosInf
  then show ?thesis using assms by (cases i) (simp_all add: fsub_def)
next
  case NegInf
  then show ?thesis using assms by (cases i) (simp_all add: fsub_def)
next
  case NaN
  then show ?thesis using assms by (cases i) (simp_all add: fsub_def)
qed

lemma schedule_step:
  assumes mr: "0 \<le> mr" and c: "float_le (round64 (p * mr)) e"
    and b: "b \<le> p" "round64 b = Finite b"
  shows "(\<exists>b'. fsub (Finite b) (fsub e (fmul (Finite b) (Finite mr))) = Finite b'
            \<and> b' \<le> b \<and> round64 b' = Finite b')
       \<or> fsub (Finite b) (fsub e (fmul (Finite b) (Finite mr))) = NegInf
       \<or> fsub (Finite b) (fsub e (fmul (Finite b) (Finite mr))) = NaN"
proof -
  have "b * mr \<le> p * mr" using b(1) mr by (rule mult_right_mono)
  then have "float_le (round64 (b * mr)) (round64 (p * mr))" by (rule round64_mono)
  then have ie: "float_le (fmul (Finite b) (Finite mr)) e"
    using c float_le_trans by simp
  from fsub_of_le[OF ie]
  consider "fsub e (fmul (Finite b) (Finite mr)) = NaN"
    | "fsub e (fmul (Finite b) (Finite mr)) = PosInf"
    | q where "0 \<le> q" "fsub e (fmul (Finite b) (Finite mr)) = Finite q"
    by blast
  then show ?thesis
  proof cases
    case 1
    then show ?thesis by (simp add: fsub_def)
  next
    case 2
    then show ?thesis by (simp add: fsub_def)
  next
    case 3
    have "float_le (round64 (b - q)) (round64 b)" using 3(1) by (intro round64_mono) simp
    then have le: "float_le (round64 (b - q)) (Finite b)" by (simp only: b(2))
    show ?thesis
    proof (cases "round64 (b - q)")
      case (Finite b')
      then have "b' \<le> b" using le by simp
      moreover have "round64 b' = Finite b'" using Finite by (rule round64_idem)
      ultimately show ?thesis using 3(2) Finite by (simp add: fsub_def)
    qed (use le 3(2) in \<open>simp_all add: fsub_def\<close>)
  qed
qed

lemma schedule_step_dead:
  assumes "rb = NegInf \<or> rb = NaN"
  shows "fsub rb (fsub e (fmul rb (Finite mr))) = NegInf
       \<or> fsub rb (fsub e (fmul rb (Finite mr))) = NaN"
  using assms
  by (cases e; cases "mr < 0"; cases "mr = 0") (auto simp: fsub_def signed_inf_def)

lemma schedule_loop_non_increasing:
  assumes "0 \<le> mr" "float_le (round64 (p * mr)) e"
    and "(\<exists>b. rb = Finite b \<and> b \<le> p \<and> round64 b = Finite b) \<or> rb = NegInf \<or> rb = NaN"
  shows "successively (\<lambda>x y. float_le y x)
           (py_round2 (py_max0 rb) # map row_balance (schedule_loop e (Finite mr) rb ms))"
  using assms(3)
proof (induction ms arbitrary: rb)
  case Nil
  then show ?case by simp
next
  case (Cons m ms)
  define rb' where "rb' = fsub rb (fsub e (fmul rb (Finite mr)))"
  have step: "((\<exists>b'. rb' = Finite b' \<and> b' \<le> p \<and> round64 b' = Finite b') \<or> rb' = NegInf \<or> rb' = NaN)
      \<and> float_le (py_round2 (py_max0 rb')) (py_round2 (py_max0 rb))"
  proof (cases "rb = NegInf \<or> rb = NaN")
    case True
    from schedule_step_dead[OF True, of e mr] have d: "rb' = NegInf \<or> rb' = NaN"
      by (simp add: rb'_def)
    show ?thesis using d balance_dead[OF d] balance_dead[OF True] by simp
  next
    case False
    then obtain b where b: "rb = Finite b" "b \<le> p" "round64 b = Finite b"
      using Cons.prems by blast
    from schedule_step[OF assms(1,2) b(2,3)]
    consider b' where "rb' = Finite b'" "b' \<le> b" "round64 b' = Finite b'"
      | "rb' = NegInf \<or> rb' = NaN"
      unfolding rb'_def b(1) by blast
    then show ?thesis
    proof cases
      case 1
      then show ?thesis using b balance_mono[OF 1(2)] by auto
    next
      case 2
      then show ?thesis using balance_dead[OF 2] balance_nonneg[of rb] by auto
    qed
  qed
  have "schedule_loop e (Finite mr) rb (m # ms)
      = \<lparr>row_month = m, row_emi = py_round2 e,
          row_principal = py_round2 (fsub e (fmul rb (Finite mr))),
          row_interest = py_round2 (fmul rb (Finite mr)),
          row_balance = py_round2 (py_max0 rb')\<rparr> # schedule_loop e (Finite mr) rb' ms"
    by (simp add: Let_def rb'_def)
  then show ?case using step Cons.IH[of rb'] by simp
qed

text \<open>
  The sum of the rounded principal and interest of a row against its rounded instalment:
  four roundings to two decimals and two binary64 roundings apart.
\<close>

lemma sum_six_abs:
  fixes a b c d e f :: rat
  assumes "\<bar>a\<bar> \<le> A" "\<bar>b\<bar> \<le> B" "\<bar>c\<bar> \<le> C" "\<bar>d\<bar> \<le> D" "\<bar>e\<bar> \<le> E" "\<bar>f\<bar> \<le> F"
  shows "\<bar>a + b + c + d + e + f\<bar> \<le> A + B + C + D + E + F"
  using assms by linarith

lemma row_sum_arith:
  fixes sd pd idd ed x y qd tiny d :: rat
  assumes "x \<le> pd + idd" "y \<le> 2 * qd + 2 * tiny" "qd \<le> 2 * pd + d / 200"
    "tiny \<le> d / 8" "0 \<le> pd" "0 \<le> idd" "0 \<le> d"
  shows "(1 / 200 + sd) + (x / 2 + tiny) + (1 / 200 + pd) + (1 / 200 + idd) + (y / 2 + tiny)
           + (1 / 200 + ed)
         \<le> 1 / 50 + (sd + 4 * pd + 2 * idd + ed + d)"
  using assms by linarith

lemma row_sum_bound:
  assumes "py_round2 e = Finite E" "py_round2 (fsub e ip) = Finite Pp" "py_round2 ip = Finite Ip"
    and "py_round2 (fadd (Finite Pp) (Finite Ip)) = Finite S"
  shows "\<bar>S - E\<bar> \<le> 1 / 50 + pow2 (- 52) * (\<bar>S\<bar> + 4 * \<bar>Pp\<bar> + 2 * \<bar>Ip\<bar> + \<bar>E\<bar> + 1)"
proof -
  define d where "d = pow2 (- 52)"
  define tiny where "tiny = pow2 (- 1075)"
  have d52: "0 \<le> pow2 (- 52)" "pow2 (- 52) \<le> 1" "pow2 (- 53) = pow2 (- 52) / 2"
    "pow2 (- 55) = pow2 (- 52) / 8"
    by (simp_all add: pow2_def)
  have "pow2 (- 1075) \<le> pow2 (- 55)" by (simp add: pow2_le_iff)
  then have tiny: "tiny \<le> d / 8" by (simp add: tiny_def d_def d52(4))
  have t0: "0 \<le> tiny" by (simp add: tiny_def)
  note d = d52(1,2)[folded d_def]
  obtain e' where e': "e = Finite e'" using assms(1) py_round2_Finite by blast
  obtain i where i: "ip = Finite i" using assms(3) py_round2_Finite by blast
  obtain q where fq: "fsub e ip = Finite q" using assms(2) py_round2_Finite by blast
  then have q: "round64 (e' - i) = Finite q" by (simp add: e' i fsub_def)
  obtain s where fs: "fadd (Finite Pp) (Finite Ip) = Finite s"
    using assms(4) py_round2_Finite by blast
  then have s: "round64 (Pp + Ip) = Finite s" by simp
  have F1: "\<bar>S - s\<bar> \<le> 1 / 200 + \<bar>S\<bar> * d"
    using py_round2_err[of s S] assms(4) fs by (simp add: d_def)
  have F2: "\<bar>s - (Pp + Ip)\<bar> \<le> \<bar>Pp + Ip\<bar> * d / 2 + tiny"
    using round64_abs_err[OF s] by (simp add: d52(3) d_def tiny_def)
  have F3: "\<bar>Pp - q\<bar> \<le> 1 / 200 + \<bar>Pp\<bar> * d"
    using py_round2_err[of q Pp] assms(2) fq by (simp add: d_def)
  have F4: "\<bar>Ip - i\<bar> \<le> 1 / 200 + \<bar>Ip\<bar> * d"
    using py_round2_err[of i Ip] assms(3) i by (simp add: d_def)
  have F5: "\<bar>q - (e' - i)\<bar> \<le> \<bar>e' - i\<bar> * d / 2 + tiny"
    using round64_abs_err[OF q] by (simp add: d52(3) d_def tiny_def)
  have F6: "\<bar>E - e'\<bar> \<le> 1 / 200 + \<bar>E\<bar> * d"
    using py_round2_err[of e' E] assms(1) e' by (simp add: d_def)
  have x: "\<bar>Pp + Ip\<bar> * d \<le> \<bar>Pp\<bar> * d + \<bar>Ip\<bar> * d"
  proof -
    have "\<bar>Pp + Ip\<bar> * d \<le> (\<bar>Pp\<bar> + \<bar>Ip\<bar>) * d" using d(1) by (intro mult_right_mono) simp_all
    then show ?thesis by (simp add: algebra_simps)
  qed
  have pd0: "0 \<le> \<bar>Pp\<bar> * d" "0 \<le> \<bar>Ip\<bar> * d" using d(1) by simp_all
  have qd: "\<bar>q\<bar> * d \<le> 2 * (\<bar>Pp\<bar> * d) + d / 200"
  proof -
    have "\<bar>Pp\<bar> * d \<le> \<bar>Pp\<bar>" using d(2) by (simp add: mult_left_le)
    then have "\<bar>q\<bar> \<le> 2 * \<bar>Pp\<bar> + 1 / 200" using F3 by linarith
    then have "\<bar>q\<bar> * d \<le> (2 * \<bar>Pp\<bar> + 1 / 200) * d" using d(1) by (intro mult_right_mono) simp_all
    then show ?thesis by (simp add: algebra_simps)
  qed
  have y: "\<bar>e' - i\<bar> * d \<le> 2 * (\<bar>q\<bar> * d) + 2 * tiny"
  proof -
    define Y where "Y = \<bar>e' - i\<bar> * d"
    have Y0: "0 \<le> Y" using d(1) by (simp add: Y_def)
    have "\<bar>e' - i\<bar> \<le> \<bar>q\<bar> + (Y / 2 + tiny)" using F5 unfolding Y_def by linarith
    then have "\<bar>e' - i\<bar> * d \<le> (\<bar>q\<bar> + (Y / 2 + tiny)) * d"
      using d(1) by (intro mult_right_mono) simp_all
    then have 1: "Y \<le> \<bar>q\<bar> * d + Y * d / 2 + tiny * d" by (simp add: Y_def algebra_simps)
    have 2: "Y * d \<le> Y" using Y0 d(2) by (simp add: mult_left_le)
    have 3: "tiny * d \<le> tiny" using t0 d(2) by (simp add: mult_left_le)
    from 1 2 3 show ?thesis unfolding Y_def[symmetric] by linarith
  qed
  have F6': "\<bar>e' - E\<bar> \<le> 1 / 200 + \<bar>E\<bar> * d"
    using F6 by (simp only: abs_minus_commute)
  have eq: "S - E = (S - s) + (s - (Pp + Ip)) + (Pp - q) + (Ip - i) + (q - (e' - i)) + (e' - E)"
    by simp
  have "\<bar>S - E\<bar> \<le> (1 / 200 + \<bar>S\<bar> * d) + (\<bar>Pp + Ip\<bar> * d / 2 + tiny) + (1 / 200 + \<bar>Pp\<bar> * d)
      + (1 / 200 + \<bar>Ip\<bar> * d) + (\<bar>e' - i\<bar> * d / 2 + tiny) + (1 / 200 + \<bar>E\<bar> * d)"
    by (subst eq) (rule sum_six_abs[OF F1 F2 F3 F4 F5 F6'])
  also have "\<dots> \<le> 1 / 50 + (\<bar>S\<bar> * d + 4 * (\<bar>Pp\<bar> * d) + 2 * (\<bar>Ip\<bar> * d) + \<bar>E\<bar> * d + d)"
    by (rule row_sum_arith[OF x y qd tiny pd0 d(1)])
  also have "\<dots> = 1 / 50 + d * (\<bar>S\<bar> + 4 * \<bar>Pp\<bar> + 2 * \<bar>Ip\<bar> + \<bar>E\<bar> + 1)"
    by (simp add: algebra_simps)
  finally show ?thesis by (simp add: d_def)
qed

lemma monthly_rate_finite:
  assumes "0 \<le> rate" "rate \<le> 100"
    and "fdiv (Finite rate) (Finite 12) = Inr r12" "fdiv r12 (Finite 100) = Inr monthly_rate"
  shows "\<exists>mr. monthly_rate = Finite mr \<and> 0 \<le> mr"
proof -
  have big: "(100 :: rat) \<le> pow2 1023"
  proof -
    have "(100 :: rat) \<le> pow2 7" by (simp add: pow2_def)
    also have "\<dots> \<le> pow2 1023" by (simp add: pow2_le_iff)
    finally show ?thesis .
  qed
  have "\<bar>rate / 12\<bar> \<le> pow2 1023" using assms(1,2) big by simp
  from round64_bounded[OF this] obtain a where a: "round64 (rate / 12) = Finite a"
    "\<bar>a\<bar> \<le> pow2 1023" by blast
  have "float_le (Finite 0) (round64 (rate / 12))" using assms(1) by (intro round64_nonneg) simp
  then have a0: "0 \<le> a" by (simp add: a(1))
  have r12: "r12 = Finite a" using assms(3) a(1) by simp
  have "\<bar>a / 100\<bar> \<le> pow2 1023" using a(2) a0 by simp
  from round64_bounded[OF this] obtain mr where mr: "round64 (a / 100) = Finite mr" by blast
  have "float_le (Finite 0) (round64 (a / 100))" using a0 by (intro round64_nonneg) simp
  then have "0 \<le> mr" by (simp add: mr)
  moreover have "monthly_rate = Finite mr" using assms(4) r12 mr by simp
  ultimately show ?thesis by blast
qed


text \<open>
  A loan of \<open>10 ^ 16\<close> at 5 percent over 24 months, evaluated step by step with a correctly
  rounded \<^verbatim>\<open>pow\<close>: the monthly rate, the monthly EMI, the first month's interest and the values
  of the first row of the schedule.
\<close>

lemma large_example:
  shows "fdiv (Finite 5) (Finite 12) = Inr (Finite (of_int 7505999378950827 * pow2 (- 54)))"
    and "fdiv (Finite (of_int 7505999378950827 * pow2 (- 54))) (Finite 100) = Inr (Finite (of_int 4803839602528529 * pow2 (- 60)))"
    and "monthly_emi_of correctly_rounded_pow (Finite 10000000000000000) (Finite (of_int 4803839602528529 * pow2 (- 60))) 24 = Inr (Finite (of_int 7019422357450975 * pow2 (- 4)))"
    and "fmul (Finite 10000000000000000) (Finite (of_int 4803839602528529 * pow2 (- 60))) = Finite (of_int 5333333333333333 * pow2 (- 7))"
    and "py_round2 (Finite (of_int 7019422357450975 * pow2 (- 4))) = Finite (7019422357450975 / 16)"
    and "py_round2 (fsub (Finite (of_int 7019422357450975 * pow2 (- 4))) (Finite (of_int 5333333333333333 * pow2 (- 7)))) = Finite (1588188922696077 / 4)"
    and "py_round2 (Finite (of_int 5333333333333333 * pow2 (- 7))) = Finite (1333333333333333 / 32)"
    and "py_round2 (fadd (Finite (1588188922696077 / 4)) (Finite (1333333333333333 / 32))) = Finite (3509711178725487 / 8)"
proof -
  define a :: rat where "a = of_int 7505999378950827 * pow2 (-54)"
  have r_a: "round64 (5 / 12) = Finite a"
    unfolding a_def by (rule round64_cert) (simp_all add: pow2_def power_divide)
  define mr :: rat where "mr = of_int 4803839602528529 * pow2 (-60)"
  have r_mr: "round64 (a / 100) = Finite mr"
    unfolding a_def mr_def by (rule round64_cert) (simp_all add: pow2_def power_divide)
  define x :: rat where "x = of_int 4522364625817873 * pow2 (-52)"
  have r_x: "round64 (1 + mr) = Finite x"
    unfolding mr_def x_def by (rule round64_cert) (simp_all add: pow2_def power_divide)
  define pw :: rat where "pw = of_int 4976213387086739 * pow2 (-52)"
  have r_pw: "round64 (x ^ 24) = Finite pw"
    unfolding x_def pw_def by (rule round64_cert) (simp_all add: pow2_def power_divide)
  define b :: rat where "b = of_int 5333333333333333 * pow2 (-7)"
  have r_b: "round64 (10000000000000000 * mr) = Finite b"
    unfolding mr_def b_def by (rule round64_cert) (simp_all add: pow2_def power_divide)
  define num :: rat where "num = of_int 5893020456311076 * pow2 (-7)"
  have r_num: "round64 (b * pw) = Finite num"
    unfolding pw_def b_def num_def by (rule round64_cert) (simp_all add: pow2_def power_divide)
  define den :: rat where "den = of_int 7561820155459888 * pow2 (-56)"
  have r_den: "round64 (pw + - 1) = Finite den"
    unfolding pw_def den_def by (rule round64_cert) (simp_all add: pow2_def power_divide)
  define emi :: rat where "emi = of_int 7019422357450975 * pow2 (-4)"
  have r_emi: "round64 (num / den) = Finite emi"
    unfolding num_def den_def emi_def by (rule round64_cert) (simp_all add: pow2_def power_divide)
  define pp :: rat where "pp = of_int 6352755690784308 * pow2 (-4)"
  have r_pp: "round64 (emi + - b) = Finite pp"
    unfolding b_def emi_def pp_def by (rule round64_cert) (simp_all add: pow2_def power_divide)
  have h_emi: "round_half_even (emi * 100) = 43871389734068594"
    unfolding emi_def by (rule rhe_unique) (simp add: pow2_def)
  have h_pp: "round_half_even (pp * 100) = 39704723067401925"
    unfolding pp_def by (rule rhe_unique) (simp add: pow2_def)
  have h_b: "round_half_even (b * 100) = 4166666666666666"
    unfolding b_def by (rule rhe_unique) (simp add: pow2_def)
  define re :: rat where "re = of_int 7019422357450975 * pow2 (-4)"
  have r_re: "round64 (43871389734068594 / 100) = Finite re"
    unfolding re_def by (rule round64_cert) (simp_all add: pow2_def power_divide)
  define rp :: rat where "rp = of_int 6352755690784308 * pow2 (-4)"
  have r_rp: "round64 (39704723067401925 / 100) = Finite rp"
    unfolding rp_def by (rule round64_cert) (simp_all add: pow2_def power_divide)
  define ri :: rat where "ri = of_int 5333333333333332 * pow2 (-7)"
  have r_ri: "round64 (4166666666666666 / 100) = Finite ri"
    unfolding ri_def by (rule round64_cert) (simp_all add: pow2_def power_divide)
  define s :: rat where "s = of_int 7019422357450974 * pow2 (-4)"
  have r_s: "round64 (rp + ri) = Finite s"
    unfolding rp_def ri_def s_def by (rule round64_cert_tie) (simp_all add: pow2_def power_divide)
  have h_s: "round_half_even (s * 100) = 43871389734068588"
    unfolding s_def by (rule rhe_tie) (simp_all add: pow2_def)
  define rs :: rat where "rs = of_int 7019422357450974 * pow2 (-4)"
  have r_rs: "round64 (43871389734068588 / 100) = Finite rs"
    unfolding rs_def by (rule round64_cert) (simp_all add: pow2_def power_divide)
  have nz: "mr \<noteq> 0" "x \<noteq> 0" "x \<noteq> 1" "den \<noteq> 0"
    unfolding mr_def x_def den_def by (simp_all add: pow2_def)
  have cx: "correctly_rounded_pow x 24 = Finite pw"
    using r_pw by (simp add: correctly_rounded_pow_def rat_power_int_def)
  have i24: "int_to_float 24 = Inr (Finite 24)" by (simp add: int_to_float_exact)
  have vals: "re = 7019422357450975 / 16" "rp = 1588188922696077 / 4"
    "ri = 1333333333333333 / 32" "rs = 3509711178725487 / 8"
    unfolding re_def rp_def ri_def rs_def by (simp_all add: pow2_def)
  show "fdiv (Finite 5) (Finite 12) = Inr (Finite (of_int 7505999378950827 * pow2 (- 54)))"
    using r_a by (simp add: a_def)
  show "fdiv (Finite (of_int 7505999378950827 * pow2 (- 54))) (Finite 100) = Inr (Finite (of_int 4803839602528529 * pow2 (- 60)))"
    using r_mr by (simp add: a_def mr_def)
  show "monthly_emi_of correctly_rounded_pow (Finite 10000000000000000) (Finite (of_int 4803839602528529 * pow2 (- 60))) 24 = Inr (Finite (of_int 7019422357450975 * pow2 (- 4)))"
    unfolding mr_def[symmetric] emi_def[symmetric]
    using nz r_x cx r_b r_num r_den r_emi i24
    by (simp add: monthly_emi_of_def math_pow_def ebind_def fsub_def)
  show "fmul (Finite 10000000000000000) (Finite (of_int 4803839602528529 * pow2 (- 60))) = Finite (of_int 5333333333333333 * pow2 (- 7))"
    unfolding mr_def[symmetric] b_def[symmetric] using r_b by simp
  show "py_round2 (Finite (of_int 7019422357450975 * pow2 (- 4))) = Finite (7019422357450975 / 16)"
    unfolding emi_def[symmetric] using h_emi r_re vals by simp
  show "py_round2 (fsub (Finite (of_int 7019422357450975 * pow2 (- 4))) (Finite (of_int 5333333333333333 * pow2 (- 7)))) = Finite (1588188922696077 / 4)"
    unfolding emi_def[symmetric] b_def[symmetric] using r_pp h_pp r_rp vals
    by (simp add: fsub_def)
  show "py_round2 (Finite (of_int 5333333333333333 * pow2 (- 7))) = Finite (1333333333333333 / 32)"
    unfolding b_def[symmetric] using h_b r_ri vals by simp
  show "py_round2 (fadd (Finite (1588188922696077 / 4)) (Finite (1333333333333333 / 32))) = Finite (3509711178725487 / 8)"
    using r_s h_s r_rs vals by simp
qed

lemma large_example_result:
  "\<exists>res. calculate_emi correctly_rounded_pow (Finite 10000000000000000) (Finite 5) 24 = Inr res
     \<and> schedule res = schedule_loop (Finite (of_int 7019422357450975 * pow2 (- 4))) (Finite (of_int 4803839602528529 * pow2 (- 60))) (Finite 10000000000000000) (schedule_months 24)"
  using large_example(1,2,3)
  by (simp add: calculate_emi_def int_to_float_exact Let_def)

lemma large_example_first_row:
  "\<exists>res bal rest. calculate_emi correctly_rounded_pow (Finite 10000000000000000) (Finite 5) 24 = Inr res
     \<and> schedule res = \<lparr>row_month = 1, row_emi = Finite (7019422357450975 / 16), row_principal = Finite (1588188922696077 / 4),
                        row_interest = Finite (1333333333333333 / 32), row_balance = bal\<rparr> # rest"
proof -
  from large_example_result obtain res where
    res: "calculate_emi correctly_rounded_pow (Finite 10000000000000000) (Finite 5) 24 = Inr res"
    and sch: "schedule res = schedule_loop (Finite (of_int 7019422357450975 * pow2 (- 4))) (Finite (of_int 4803839602528529 * pow2 (- 60))) (Finite 10000000000000000) (schedule_months 24)"
    by blast
  have "\<exists>ms. schedule_months 24 = 1 # ms"
    by (simp add: schedule_months_eq upto_rec1)
  then obtain ms where m: "schedule_months 24 = 1 # ms" ..
  show ?thesis
    using res large_example(4,5,6,7)
    by (simp add: sch m Let_def)
qed



end
